(* ===== verification/Prelude.thy ===== *)
theory Prelude
  imports Main "HOL-Library.AList" "HOL-Library.Multiset"
begin

text \<open>
  Shared vocabulary of the PySW development.
  \<^item> Python exceptions are values of \<open>pyerr\<close>; a computation of the code is a value of
    \<open>'a res = (pyerr + 'a) option\<close>: \<open>Some (Inr v)\<close> is a normal return, \<open>Some (Inl e)\<close>
    a raised exception, and \<open>None\<close> a recursion that never returns (CPython turns it into
    a \<open>RecursionError\<close> at its stack limit). \<open>rbind\<close> sequences such computations and
    \<open>mapM\<close> runs one over a list, as the code's \<open>for\<close> loops and list comprehensions do;
    both are monotone, so that \<^theory_text>\<open>partial_function (option)\<close> accepts recursion through
    them.
  \<^item> Python dictionaries are association lists (\<open>('k, 'v) dict\<close>): \<open>AList.update\<close>
    overwrites a key in place and appends a new key at the end, which is Python's
    insertion order; \<open>dict_add\<close> is \<open>d[k] = d.get(k, 0) + t\<close> with a sum kept as the list
    of its summands.
  \<^item> Explicit matrices (sympy \<open>Matrix\<close> with integer entries) are row lists \<open>mat\<close>, with
    \<open>eye\<close>, the Kronecker product \<open>kron\<close>, the left fold \<open>kron_list\<close> of sympy's
    \<open>kronecker_product(*ms)\<close>, the product \<open>mat_mul\<close> and the square-shape predicate
    \<open>is_sq\<close>.
\<close>

named_theorems res_simps "evaluation rules of the result monad"
named_theorems shape_simps "shape facts of explicit matrices"

section \<open>Python exceptions and the result monad\<close>

datatype pyerr = TypeError | KeyError | IndexError | AttributeError | ValueError | ShapeError | AssertionError
  | NameError

type_synonym 'a res = "(pyerr + 'a) option"

abbreviation ok :: "'a \<Rightarrow> 'a res" where
  "ok x \<equiv> Some (Inr x)"

abbreviation throw :: "pyerr \<Rightarrow> 'a res" where
  "throw e \<equiv> Some (Inl e)"

definition rbind :: "'a res \<Rightarrow> ('a \<Rightarrow> 'b res) \<Rightarrow> 'b res" where
  "rbind m f = Option.bind m (\<lambda>r. case r of Inl e \<Rightarrow> Some (Inl e) | Inr a \<Rightarrow> f a)"

primrec mapM :: "('a \<Rightarrow> 'b res) \<Rightarrow> 'a list \<Rightarrow> 'b list res" where
  "mapM f [] = ok []"
| "mapM f (x # xs) = rbind (f x) (\<lambda>y. rbind (mapM f xs) (\<lambda>ys. ok (y # ys)))"

text \<open>A loop that threads an accumulator and stops at the first exception.\<close>

primrec foldM :: "('b \<Rightarrow> 'a \<Rightarrow> 'b res) \<Rightarrow> 'b \<Rightarrow> 'a list \<Rightarrow> 'b res" where
  "foldM f acc [] = ok acc"
| "foldM f acc (x # xs) = rbind (f acc x) (\<lambda>acc'. foldM f acc' xs)"

text \<open>\<open>list(d)[0]\<close> of the code: the first element, \<open>IndexError\<close> on an empty list.\<close>

definition py_first :: "'a list \<Rightarrow> 'a res" where
  "py_first xs = (case xs of [] \<Rightarrow> throw IndexError | x # _ \<Rightarrow> ok x)"

section \<open>Python dictionaries as association lists\<close>

type_synonym ('k, 'v) dict = "('k \<times> 'v) list"

definition get0 :: "('k, 'v list) dict \<Rightarrow> 'k \<Rightarrow> 'v list" where
  "get0 d k = (case map_of d k of None \<Rightarrow> [] | Some v \<Rightarrow> v)"

definition dict_add :: "('k, 'v list) dict \<Rightarrow> 'k \<times> 'v \<Rightarrow> ('k, 'v list) dict" where
  "dict_add d kv = AList.update (fst kv) (get0 d (fst kv) @ [snd kv]) d"

text \<open>The code's accumulation loop \<open>for k, t in ...: d[k] = d.get(k, 0) + t\<close>.\<close>

definition group_into :: "('k \<times> 'v) list \<Rightarrow> ('k, 'v list) dict" where
  "group_into kvs = foldl dict_add [] kvs"

section \<open>Explicit matrices\<close>

type_synonym mat = "int list list"

definition eye :: "nat \<Rightarrow> mat" where
  "eye n = map (\<lambda>i. map (\<lambda>j. if i = j then 1 else 0) [0..<n]) [0..<n]"

definition is_sq :: "nat \<Rightarrow> mat \<Rightarrow> bool" where
  "is_sq n M \<longleftrightarrow> length M = n \<and> (\<forall>r \<in> set M. length r = n)"

definition kron :: "mat \<Rightarrow> mat \<Rightarrow> mat" where
  "kron A B = concat (map (\<lambda>ra. map (\<lambda>rb. concat (map (\<lambda>a. map (\<lambda>b. a * b) rb) ra)) B) A)"

text \<open>sympy's \<open>kronecker_product(*ms)\<close>: undefined (\<open>TypeError\<close>) on no argument.\<close>

definition kron_list :: "mat list \<Rightarrow> mat res" where
  "kron_list ms = (case ms of [] \<Rightarrow> throw TypeError | m # ms' \<Rightarrow> ok (foldl kron m ms'))"

definition mat_mul :: "mat \<Rightarrow> mat \<Rightarrow> mat" where
  "mat_mul A B = map (\<lambda>r. map (\<lambda>c. sum_list (map2 (*) r c)) (transpose B)) A"

section \<open>Lemmas on the result monad\<close>

lemma rbind_ok [simp, res_simps]: "rbind (ok x) f = f x"
  by (simp add: rbind_def)

lemma rbind_throw [simp, res_simps]: "rbind (throw e) f = throw e"
  by (simp add: rbind_def)

lemma rbind_None [simp, res_simps]: "rbind None f = None"
  by (simp add: rbind_def)

lemma rbind_eq_ok:
  "rbind m f = ok y \<longleftrightarrow> (\<exists>x. m = ok x \<and> f x = ok y)"
  by (cases m) (auto split: sum.split simp: rbind_def)

lemma rbind_mono [partial_function_mono]:
  assumes mf: "mono_option B" and mg: "\<And>y. mono_option (\<lambda>f. C y f)"
  shows "mono_option (\<lambda>f. rbind (B f) (\<lambda>y. C y f))"
  unfolding rbind_def
proof (rule bind_mono [OF mf])
  fix y
  show "mono_option (\<lambda>f. case y of Inl e \<Rightarrow> Some (Inl e) | Inr a \<Rightarrow> C a f)"
    by (cases y) (simp_all add: option.const_mono mg)
qed

lemma mapM_mono [partial_function_mono]:
  assumes "\<And>x. mono_option (\<lambda>f. F f x)"
  shows "mono_option (\<lambda>f. mapM (F f) xs)"
proof (induction xs)
  case Nil
  then show ?case by (simp add: option.const_mono)
next
  case (Cons x xs)
  show ?case unfolding mapM.simps
    by (intro rbind_mono assms Cons option.const_mono)
qed

lemma foldM_mono [partial_function_mono]:
  assumes "\<And>acc x. mono_option (\<lambda>f. F f acc x)"
  shows "mono_option (\<lambda>f. foldM (F f) acc xs)"
proof (induction xs arbitrary: acc)
  case Nil
  then show ?case by (simp add: option.const_mono)
next
  case (Cons x xs)
  show ?case unfolding foldM.simps
    by (intro rbind_mono assms Cons)
qed

lemma foldM_ok [res_simps]:
  "(\<And>acc x. x \<in> set xs \<Longrightarrow> f acc x = ok (g acc x)) \<Longrightarrow> foldM f acc xs = ok (foldl g acc xs)"
  by (induction xs arbitrary: acc) simp_all

lemma mapM_ok [res_simps]:
  "(\<And>x. x \<in> set xs \<Longrightarrow> f x = ok (g x)) \<Longrightarrow> mapM f xs = ok (map g xs)"
  by (induction xs) simp_all

lemma mapM_map_ok [res_simps]:
  "(\<And>x. x \<in> set xs \<Longrightarrow> f (h x) = ok (g x)) \<Longrightarrow> mapM f (map h xs) = ok (map g xs)"
  by (induction xs) simp_all

lemma mapM_ok_exists:
  "(\<And>x. x \<in> set xs \<Longrightarrow> \<exists>y. f x = ok y \<and> Q x y) \<Longrightarrow> \<exists>ys. mapM f xs = ok ys \<and> list_all2 Q xs ys"
proof (induction xs)
  case Nil
  then show ?case by simp
next
  case (Cons x xs)
  then obtain y ys where "f x = ok y" "Q x y" "mapM f xs = ok ys" "list_all2 Q xs ys"
    by (metis list.set_intros)
  then show ?case by simp
qed

lemma mapM_cong_ok:
  "mapM f xs = ok ys \<Longrightarrow> (\<And>x. x \<in> set xs \<Longrightarrow> f x = g x) \<Longrightarrow> mapM g xs = ok ys"
proof (induction xs arbitrary: ys)
  case Nil
  then show ?case by simp
next
  case (Cons x xs)
  then show ?case by (auto simp: rbind_eq_ok)
qed

lemma mapM_None_first [res_simps]: "f x = None \<Longrightarrow> mapM f (x # xs) = None"
  by simp

lemma mapM_eq_ok_length: "mapM f xs = ok ys \<Longrightarrow> length ys = length xs"
proof (induction xs arbitrary: ys)
  case Nil
  then show ?case by simp
next
  case (Cons x xs)
  then show ?case by (auto simp: rbind_eq_ok)
qed

section \<open>Lemmas on dictionaries\<close>

lemma map_of_dict_add [simp]:
  "map_of (dict_add d (k, t)) = (map_of d)(k \<mapsto> get0 d k @ [t])"
  by (simp add: dict_add_def update_conv')

lemma get0_dict_add [simp]:
  "get0 (dict_add d (k, t)) k' = (if k' = k then get0 d k @ [t] else get0 d k')"
  by (simp add: get0_def)

lemma get0_Nil [simp]: "get0 [] k = []"
  by (simp add: get0_def)

lemma get0_foldl_dict_add:
  "get0 (foldl dict_add d kvs) k = get0 d k @ map snd (filter (\<lambda>kv. fst kv = k) kvs)"
  by (induction kvs arbitrary: d) auto

lemma get0_group_into [simp]:
  "get0 (group_into kvs) k = map snd (filter (\<lambda>kv. fst kv = k) kvs)"
  by (simp add: group_into_def get0_foldl_dict_add)

lemma dom_foldl_dict_add:
  "fst ` set (foldl dict_add d kvs) = fst ` set d \<union> fst ` set kvs"
proof (induction kvs arbitrary: d)
  case Nil
  then show ?case by simp
next
  case (Cons kv kvs)
  obtain k t where kv: "kv = (k, t)" by fastforce
  have "fst ` set (dict_add d kv) = insert k (fst ` set d)"
    by (simp add: dict_add_def kv dom_update)
  with Cons.IH show ?case by (auto simp: kv)
qed

lemma keys_group_into [simp]: "fst ` set (group_into kvs) = fst ` set kvs"
  by (simp add: group_into_def dom_foldl_dict_add)

lemma distinct_foldl_dict_add:
  "distinct (map fst d) \<Longrightarrow> distinct (map fst (foldl dict_add d kvs))"
  by (induction kvs arbitrary: d) (auto simp: dict_add_def distinct_update)

lemma distinct_keys_group_into [simp]: "distinct (map fst (group_into kvs))"
  by (simp add: group_into_def distinct_foldl_dict_add)

section \<open>Lemmas on explicit matrices\<close>

lemma length_concat_map_const:
  "(\<And>x. x \<in> set xs \<Longrightarrow> length (f x) = k) \<Longrightarrow> length (concat (map f xs)) = length xs * k"
  by (induction xs) simp_all

lemma is_sq_eye [simp, shape_simps]: "is_sq n (eye n)"
  by (simp add: is_sq_def eye_def)

lemma is_sq_kron [shape_simps]:
  assumes "is_sq m A" and "is_sq n B"
  shows "is_sq (m * n) (kron A B)"
proof -
  have rows: "length (kron A B) = m * n"
    using assms by (simp add: kron_def is_sq_def length_concat_map_const)
  have "\<forall>r \<in> set (kron A B). length r = m * n"
    using assms by (auto simp: kron_def is_sq_def length_concat_map_const)
  with rows show ?thesis by (simp add: is_sq_def)
qed

lemma is_sq_foldl_kron:
  "is_sq m A \<Longrightarrow> list_all2 is_sq ns Ms \<Longrightarrow> is_sq (m * prod_list ns) (foldl kron A Ms)"
proof (induction Ms arbitrary: A m ns)
  case Nil
  then show ?case by simp
next
  case (Cons M Ms)
  then obtain n ns' where ns: "ns = n # ns'" and "is_sq n M" and "list_all2 is_sq ns' Ms"
    by (auto simp: list_all2_Cons2)
  with Cons.prems have "is_sq (m * n) (kron A M)" by (simp add: is_sq_kron)
  with Cons.IH \<open>list_all2 is_sq ns' Ms\<close> have "is_sq (m * n * prod_list ns') (foldl kron (kron A M) Ms)"
    by blast
  then show ?case by (simp add: ns mult.assoc)
qed

lemma kron_list_is_sq [shape_simps]:
  "list_all2 is_sq ns Ms \<Longrightarrow> Ms \<noteq> [] \<Longrightarrow> \<exists>K. kron_list Ms = ok K \<and> is_sq (prod_list ns) K"
proof (cases Ms)
  case Nil
  assume "Ms \<noteq> []"
  with Nil show ?thesis by simp
next
  case (Cons M Ms')
  assume all: "list_all2 is_sq ns Ms"
  with Cons obtain n ns' where "ns = n # ns'" "is_sq n M" "list_all2 is_sq ns' Ms'"
    by (auto simp: list_all2_Cons2)
  then show ?thesis
    using is_sq_foldl_kron [of n M ns' Ms'] by (simp add: kron_list_def Cons)
qed

lemma length_transpose_is_sq:
  "is_sq n B \<Longrightarrow> 0 < n \<Longrightarrow> length (transpose B) = n"
proof -
  have "(\<forall>r \<in> set B. length r = n) \<Longrightarrow> B \<noteq> [] \<Longrightarrow> foldr (\<lambda>xs. max (length xs)) B 0 = n"
    for B :: mat by (induction B) fastforce+
  then show "is_sq n B \<Longrightarrow> 0 < n \<Longrightarrow> length (transpose B) = n"
    by (auto simp: is_sq_def length_transpose)
qed

lemma is_sq_mat_mul [shape_simps]:
  assumes "is_sq n A" and "is_sq n B"
  shows "is_sq n (mat_mul A B)"
proof -
  show ?thesis
  proof (cases "n = 0")
    case True
    with assms(1) show ?thesis by (simp add: is_sq_def mat_mul_def)
  next
    case False
    with assms(2) have "length (transpose B) = n" by (simp add: length_transpose_is_sq)
    with assms(1) show ?thesis by (auto simp: is_sq_def mat_mul_def)
  qed
qed

end
