(* ===== verification/Expr.thy ===== *)
theory Expr
  imports Prelude
begin

text \<open>
  The expression model of the repository: the sympy objects the code of
  \<open>src/Modules/sympy/utils.py\<close> dispatches on (numbers, the \<open>RDsymbol\<close>, \<open>RDOperator\<close>
  and \<open>RDBoson\<close> leaves, sympy's \<open>Add\<close>, \<open>Mul\<close>, \<open>Pow\<close> and the unevaluated quantum
  \<open>Commutator\<close>), and the part of the external algebra engine the code calls:
  \<open>expand()\<close> followed by \<open>as_ordered_terms()\<close> and \<open>as_ordered_factors()\<close>, here
  \<open>expand_terms\<close>, which returns the additive terms of the expanded expression, each as
  the ordered list of its factors.
\<close>

datatype ladder = Creation | Annihilation

datatype expr =
    Num int
  | Sym string nat
  | FinOp string string nat mat
  | Boson string string ladder
  | Sum "expr list"
  | Prod "expr list"
  | Power expr int
  | Comm expr expr

text \<open>
  \<open>Sym name order\<close> is \<open>RDsymbol(name, order)\<close>; \<open>FinOp name subspace dim matrix\<close> is
  \<open>RDOperator(name, subspace=..., dim=..., matrix=...)\<close>; \<open>Boson name mode kind\<close> is
  \<open>RDBoson\<close>, whose \<open>subspace\<close> is its mode and whose \<open>is_annihilation\<close> flag is the
  kind. The multimethods of the code select an overload by the class of their argument:
  \<open>is_leaf\<close> holds of the classes listed in the leaf overloads.
\<close>

fun is_leaf :: "expr \<Rightarrow> bool" where
  "is_leaf (Num _) = True"
| "is_leaf (Sym _ _) = True"
| "is_leaf (FinOp _ _ _ _) = True"
| "is_leaf (Boson _ _ _) = True"
| "is_leaf _ = False"

fun is_boson :: "expr \<Rightarrow> bool" where
  "is_boson (Boson _ _ _) = True"
| "is_boson _ = False"

fun is_power :: "expr \<Rightarrow> bool" where
  "is_power (Power _ _) = True"
| "is_power _ = False"

fun is_comm :: "expr \<Rightarrow> bool" where
  "is_comm (Comm _ _) = True"
| "is_comm _ = False"

section \<open>The external engine: expansion into ordered terms and factors\<close>

text \<open>
  Products distribute over sums keeping the left-to-right (noncommutative) order of the
  factors; a power of a sum with an exponent of at least 2 is multiplied out; every other
  power, every leaf and every unevaluated commutator is an atomic factor (sympy's
  \<open>expand()\<close> has no commutator hint by default). sympy also merges equal
  neighbouring factors into powers and collects like terms; the model keeps them apart,
  which changes no key the classifiers compute.
\<close>

definition distrib :: "expr list list list \<Rightarrow> expr list list" where
  "distrib tss = foldr (\<lambda>ts acc. [f @ g. f \<leftarrow> ts, g \<leftarrow> acc]) tss [[]]"

fun expand_terms :: "expr \<Rightarrow> expr list list" where
  "expand_terms (Sum es) = concat (map expand_terms es)"
| "expand_terms (Prod es) = distrib (map expand_terms es)"
| "expand_terms (Power (Sum es) n) =
     (if 2 \<le> n then distrib (replicate (nat n) (concat (map expand_terms es)))
      else [[Power (Sum es) n]])"
| "expand_terms e = [[e]]"

text \<open>The term expression of a factor list (sympy's \<open>Mul(*fs)\<close>; the empty product is 1).\<close>

fun term_of :: "expr list \<Rightarrow> expr" where
  "term_of [] = Num 1"
| "term_of [f] = f"
| "term_of fs = Prod fs"

text \<open>
  An atom of the expansion is a leaf, a power or an unevaluated commutator that the
  expansion leaves as it is.
\<close>

definition is_atom :: "expr \<Rightarrow> bool" where
  "is_atom f \<longleftrightarrow> (is_leaf f \<or> is_power f \<or> is_comm f) \<and> expand_terms f = [[f]]"

definition has_comm_atom :: "expr \<Rightarrow> bool" where
  "has_comm_atom e \<longleftrightarrow> list_ex (list_ex is_comm) (expand_terms e)"

section \<open>Lemmas on the expansion\<close>

lemma distrib_atoms:
  "(\<And>ts. ts \<in> set tss \<Longrightarrow> \<forall>fs \<in> set ts. \<forall>f \<in> set fs. P f) \<Longrightarrow>
   \<forall>fs \<in> set (distrib tss). \<forall>f \<in> set fs. P f"
  by (induction tss) (auto simp: distrib_def)

lemma expand_terms_atoms: "\<forall>fs \<in> set (expand_terms e). \<forall>f \<in> set fs. is_atom f"
proof (induction e rule: expand_terms.induct)
  case (2 es)
  have "\<forall>fs \<in> set (distrib (map expand_terms es)). \<forall>f \<in> set fs. is_atom f"
    by (rule distrib_atoms) (use 2 in auto)
  then show ?case by simp
next
  case (3 es n)
  show ?case
  proof (cases "2 \<le> n")
    case True
    with "3" have "\<forall>fs \<in> set (concat (map expand_terms es)). \<forall>f \<in> set fs. is_atom f"
      by auto
    then have "\<forall>fs \<in> set (distrib (replicate (nat n) (concat (map expand_terms es)))).
                 \<forall>f \<in> set fs. is_atom f"
      by (intro distrib_atoms) auto
    with True show ?thesis by simp
  next
    case False
    then show ?thesis by (simp add: is_atom_def)
  qed
qed (auto simp: is_atom_def)

lemma has_comm_atom_iff:
  "has_comm_atom e \<longleftrightarrow> (\<exists>fs \<in> set (expand_terms e). \<exists>f \<in> set fs. is_comm f)"
  by (simp add: has_comm_atom_def list_ex_iff)

lemma expand_atom: "is_atom f \<Longrightarrow> expand_terms f = [[f]]"
  by (simp add: is_atom_def)

lemma distrib_singletons: "distrib (map (\<lambda>f. [[f]]) fs) = [fs]"
  by (induction fs) (simp_all add: distrib_def)

lemma atom_cases:
  "is_atom f \<Longrightarrow> \<not> is_comm f \<Longrightarrow> is_leaf f \<or> is_power f"
  by (simp add: is_atom_def)

end
