(* ===== verification/Decompose.thy ===== *)
theory Decompose
  imports Expr
begin

text \<open>
  The term/factor decomposer \<open>get_terms_and_factors\<close> of
  \<open>src/Modules/sympy/utils.py\<close> (lines 18--46): three overloads, for leaves, for
  \<open>Pow\<close> and for any other expression. The third expands the expression and calls the
  decomposer again on every factor of every term, keeping the first factor list of the
  result (\<open>f_list[0]\<close>). That recursion need not end: an unevaluated commutator is its own
  only term and its own only factor, so the code calls itself on the same argument for
  ever. The model is therefore a \<^theory_text>\<open>partial_function (option)\<close>, and the theorems say
  exactly on which expressions it returns (\<open>decompose\<close> is then its result) and on which
  it never does.
\<close>

partial_function (option) get_terms_and_factors ::
  "expr \<Rightarrow> (expr list \<times> expr list list) res" where
  "get_terms_and_factors e =
     (if is_leaf e then ok ([e], [[e]])
      else case e of
        Power b n \<Rightarrow> ok ([e], [replicate (nat n) b])
      | _ \<Rightarrow> (let ts = expand_terms e in
              rbind (mapM (\<lambda>fs. rbind (mapM (\<lambda>f. rbind (get_terms_and_factors f)
                                                      (\<lambda>r. py_first (snd r))) fs)
                                       (\<lambda>ls. ok (concat ls))) ts)
                (\<lambda>fss. ok (map term_of ts, fss))))"

declare get_terms_and_factors.simps [code]

text \<open>The factors an atom of the expansion contributes: a power its base repeated.\<close>

fun atom_factors :: "expr \<Rightarrow> expr list" where
  "atom_factors (Power b n) = replicate (nat n) b"
| "atom_factors f = [f]"

text \<open>The decomposition the code computes where it returns (spec section 4.1).\<close>

definition decompose :: "expr \<Rightarrow> expr list \<times> expr list list" where
  "decompose e =
     (if is_leaf e then ([e], [[e]])
      else case e of
        Power b n \<Rightarrow> ([e], [replicate (nat n) b])
      | _ \<Rightarrow> (map term_of (expand_terms e),
              map (\<lambda>fs. concat (map atom_factors fs)) (expand_terms e)))"

definition decomposes :: "expr \<Rightarrow> bool" where
  "decomposes e \<longleftrightarrow> is_leaf e \<or> is_power e \<or> \<not> has_comm_atom e"

text \<open>
  The classifiers call their own leaf overloads on each factor; where every factor of the
  decomposition is a leaf (no power of a compound base is split into compound copies),
  those are the only overloads reached.
\<close>

definition classifiable :: "expr \<Rightarrow> bool" where
  "classifiable e \<longleftrightarrow> decomposes e \<and> list_all (list_all is_leaf) (snd (decompose e))"

section \<open>Lemmas\<close>

lemma mapM_None:
  assumes "\<exists>x \<in> set xs. g x = None"
    and "\<And>x. x \<in> set xs \<Longrightarrow> g x = None \<or> (\<exists>w. g x = ok w)"
  shows "mapM g xs = None"
  using assms
proof (induction xs)
  case Nil
  then show ?case by simp
next
  case (Cons x xs)
  show ?case
  proof (cases "g x = None")
    case True
    then show ?thesis by simp
  next
    case False
    with Cons.prems(2) [of x] obtain w where w: "g x = ok w" by auto
    from False Cons.prems(1) have "\<exists>x \<in> set xs. g x = None" by auto
    with Cons.prems(2) Cons.IH have "mapM g xs = None" by auto
    with w show ?thesis by simp
  qed
qed

lemma gtf_leaf_or_power:
  "is_leaf f \<or> is_power f \<Longrightarrow> get_terms_and_factors f = ok (decompose f)"
  by (subst get_terms_and_factors.simps) (cases f; simp add: decompose_def)

lemma gtf_first_atom:
  "is_leaf f \<or> is_power f \<Longrightarrow>
   rbind (get_terms_and_factors f) (\<lambda>r. py_first (snd r)) = ok (atom_factors f)"
  by (cases f) (simp_all add: gtf_leaf_or_power decompose_def py_first_def)

lemma gtf_Some_not_comm:
  assumes "get_terms_and_factors x = Some r"
  shows "\<not> is_comm x"
  apply (rule get_terms_and_factors.raw_induct [where P = "\<lambda>x r. \<not> is_comm x", OF _ assms])
  subgoal premises prems for gtf x r
  proof
    assume "is_comm x"
    then obtain a b where x: "x = Comm a b" by (cases x) auto
    show False
    proof (cases "gtf (Comm a b)")
      case None
      with prems(2) show False by (simp add: x Let_def)
    next
      case (Some r')
      with prems(1) show False by fastforce
    qed
  qed
  done

lemma gtf_Comm: "get_terms_and_factors (Comm a b) = None"
  using gtf_Some_not_comm by fastforce

lemma gtf_first_atom_cases:
  "is_atom f \<Longrightarrow>
   rbind (get_terms_and_factors f) (\<lambda>r. py_first (snd r)) =
     (if is_comm f then None else ok (atom_factors f))"
proof (cases "is_comm f")
  case True
  then obtain a b where "f = Comm a b" by (cases f) auto
  then show ?thesis by (simp add: gtf_Comm)
next
  case False
  moreover assume "is_atom f"
  ultimately show ?thesis by (simp add: gtf_first_atom atom_cases)
qed

lemma gtf_generic:
  "\<not> is_leaf e \<Longrightarrow> \<not> is_power e \<Longrightarrow>
   get_terms_and_factors e =
     rbind (mapM (\<lambda>fs. rbind (mapM (\<lambda>f. rbind (get_terms_and_factors f)
                                            (\<lambda>r. py_first (snd r))) fs)
                             (\<lambda>ls. ok (concat ls))) (expand_terms e))
       (\<lambda>fss. ok (map term_of (expand_terms e), fss))"
  by (subst get_terms_and_factors.simps) (cases e; simp add: Let_def)

lemma gtf_term_factors:
  assumes "\<forall>f \<in> set fs. is_atom f"
  shows "mapM (\<lambda>f. rbind (get_terms_and_factors f) (\<lambda>r. py_first (snd r))) fs =
           (if list_ex is_comm fs then None else ok (map atom_factors fs))"
proof (cases "list_ex is_comm fs")
  case True
  then have "mapM (\<lambda>f. rbind (get_terms_and_factors f) (\<lambda>r. py_first (snd r))) fs = None"
    using assms by (intro mapM_None) (auto simp: list_ex_iff gtf_first_atom_cases)
  with True show ?thesis by simp
next
  case False
  with assms show ?thesis
    by (auto simp: list_ex_iff gtf_first_atom_cases intro!: mapM_ok)
qed

lemma decompose_generic:
  "\<not> is_leaf e \<Longrightarrow> \<not> is_power e \<Longrightarrow>
   decompose e = (map term_of (expand_terms e),
                  map (\<lambda>fs. concat (map atom_factors fs)) (expand_terms e))"
  by (cases e) (simp_all add: decompose_def)

section \<open>Where the decomposer returns, and where it never does\<close>

lemma gtf_decomposes:
  "decomposes e \<Longrightarrow> get_terms_and_factors e = ok (decompose e)"
proof (cases "is_leaf e \<or> is_power e")
  case True
  then show ?thesis by (rule gtf_leaf_or_power)
next
  case False
  moreover assume "decomposes e"
  ultimately have nc: "\<not> has_comm_atom e" by (simp add: decomposes_def)
  have "\<And>fs. fs \<in> set (expand_terms e) \<Longrightarrow>
          rbind (mapM (\<lambda>f. rbind (get_terms_and_factors f) (\<lambda>r. py_first (snd r))) fs)
                (\<lambda>ls. ok (concat ls)) = ok (concat (map atom_factors fs))"
    using nc expand_terms_atoms [of e] by (auto simp: gtf_term_factors has_comm_atom_iff list_ex_iff)
  then show ?thesis
    using False by (simp add: gtf_generic decompose_generic mapM_ok)
qed

text \<open>
  C1: on every expression that is a leaf, a power, or whose expansion has no unevaluated
  commutator among its factors, the decomposer returns, and its result is the
  decomposition of spec section 4.1: the expanded terms, each with its ordered factors, a
  power contributing its base repeated (for a negative exponent, no factor at all).
\<close>

theorem get_terms_and_factors_returns:
  "decomposes e \<Longrightarrow> get_terms_and_factors e = ok (decompose e)"
  by (rule gtf_decomposes)

text \<open>
  C2: on every other expression (an expansion with an unevaluated commutator factor) the
  decomposer never returns: it calls itself on the commutator for ever.
\<close>

theorem get_terms_and_factors_diverges:
  "\<not> decomposes e \<Longrightarrow> get_terms_and_factors e = None"
proof -
  assume "\<not> decomposes e"
  then have gen: "\<not> is_leaf e" "\<not> is_power e" and c: "has_comm_atom e"
    by (simp_all add: decomposes_def)
  let ?g = "\<lambda>fs. rbind (mapM (\<lambda>f. rbind (get_terms_and_factors f) (\<lambda>r. py_first (snd r))) fs)
                       (\<lambda>ls. ok (concat ls))"
  have g: "?g fs = (if list_ex is_comm fs then None else ok (concat (map atom_factors fs)))"
    if "fs \<in> set (expand_terms e)" for fs
    using that expand_terms_atoms [of e] by (simp add: gtf_term_factors)
  have "mapM ?g (expand_terms e) = None"
    using c g by (intro mapM_None) (auto simp: has_comm_atom_def list_ex_iff)
  with gen show ?thesis by (simp add: gtf_generic)
qed

lemma classifiable_generic:
  assumes "classifiable e" and "\<not> is_leaf e"
  shows "\<not> has_comm_atom e \<and>
         decompose e = (map term_of (expand_terms e),
                        map (\<lambda>fs. concat (map atom_factors fs)) (expand_terms e))"
proof (cases "is_power e")
  case False
  with assms show ?thesis by (simp add: classifiable_def decomposes_def decompose_generic)
next
  case True
  then obtain b n where e: "e = Power b n" by (cases e) auto
  have base: "expand_terms (Power b n) = [[Power b n]]"
  proof (cases "\<exists>es. b = Sum es")
    case True
    then obtain es where b: "b = Sum es" by blast
    from assms(1) have "list_all is_leaf (replicate (nat n) b)"
      by (simp add: classifiable_def decompose_def e)
    have "\<not> 2 \<le> n"
    proof
      assume "2 \<le> n"
      then obtain k where "nat n = Suc k" by (cases "nat n") auto
      with \<open>list_all is_leaf (replicate (nat n) b)\<close> show False by (simp add: b)
    qed
    then show ?thesis by (simp add: b)
  next
    case False
    then show ?thesis by (cases b) auto
  qed
  then show ?thesis by (simp add: e has_comm_atom_def decompose_def)
qed

section \<open>Witnesses\<close>

theorem get_terms_and_factors_returns_witness:
  "decomposes (Prod [Sym ''g'' 1, Power (Boson ''a'' ''a'' Creation) 2, Power (Sym ''x'' 0) (-1)]) \<and>
   get_terms_and_factors (Prod [Sym ''g'' 1, Power (Boson ''a'' ''a'' Creation) 2, Power (Sym ''x'' 0) (-1)]) =
     ok ([Prod [Sym ''g'' 1, Power (Boson ''a'' ''a'' Creation) 2, Power (Sym ''x'' 0) (-1)]],
         [[Sym ''g'' 1, Boson ''a'' ''a'' Creation, Boson ''a'' ''a'' Creation]])"
proof -
  have d: "decomposes (Prod [Sym ''g'' 1, Power (Boson ''a'' ''a'' Creation) 2, Power (Sym ''x'' 0) (-1)])"
    by (simp add: decomposes_def has_comm_atom_def distrib_def)
  show ?thesis
    using d get_terms_and_factors_returns [OF d] by (simp add: decompose_def distrib_def numeral_2_eq_2)
qed

theorem get_terms_and_factors_diverges_witness:
  "\<not> decomposes (Prod [Sym ''g'' 1, Comm (Sym ''x'' 0) (Sym ''y'' 0)]) \<and>
   get_terms_and_factors (Prod [Sym ''g'' 1, Comm (Sym ''x'' 0) (Sym ''y'' 0)]) = None"
proof -
  have d: "\<not> decomposes (Prod [Sym ''g'' 1, Comm (Sym ''x'' 0) (Sym ''y'' 0)])"
    by (simp add: decomposes_def has_comm_atom_def distrib_def)
  show ?thesis
    using d get_terms_and_factors_diverges [OF d] by simp
qed

end
