(* ===== verification/Classify.thy ===== *)
theory Classify
  imports Decompose
begin

text \<open>
  The order and finite/infinite classifiers of \<open>src/Modules/sympy/utils.py\<close>:
  \<open>group_by_order\<close> (lines 48--69) and \<open>group_by_infinite\<close> (lines 71--87). Each
  multimethod is one \<^theory_text>\<open>partial_function (option)\<close>: the leaf overloads return a
  scalar (an order, a boolean), the \<open>Expr\<close> overload decomposes its argument, calls the
  multimethod again on each factor and accumulates the terms in a dictionary keyed by the
  term's class. Python's builtin \<open>sum\<close>, which \<open>np_sum\<close> falls back to on a generator,
  adds the factor orders lazily from 0 and raises \<open>TypeError\<close> at a dictionary;
  \<open>np_any\<close> of a list is the truth of one of its elements.
\<close>

fun order_of :: "expr \<Rightarrow> nat" where
  "order_of (Sym _ n) = n"
| "order_of _ = 0"

partial_function (option) group_by_order :: "expr \<Rightarrow> (nat + (nat, expr list) dict) res" where
  "group_by_order e =
     (if is_leaf e then ok (Inl (order_of e))
      else rbind (get_terms_and_factors e) (\<lambda>r.
        rbind (mapM (foldM (\<lambda>acc f. rbind (group_by_order f)
                                       (\<lambda>v. case v of Inl n \<Rightarrow> ok (acc + n)
                                                  | Inr _ \<Rightarrow> throw TypeError)) 0) (snd r))
          (\<lambda>ords. ok (Inr (group_into (zip ords (fst r)))))))"

declare group_by_order.simps [code]

fun truthy :: "bool + ('k, 'v) dict \<Rightarrow> bool" where
  "truthy (Inl b) = b"
| "truthy (Inr d) = (d \<noteq> [])"

partial_function (option) group_by_infinite :: "expr \<Rightarrow> (bool + (bool, expr list) dict) res" where
  "group_by_infinite e =
     (if is_leaf e then ok (Inl (is_boson e))
      else rbind (get_terms_and_factors e) (\<lambda>r.
        rbind (mapM (\<lambda>fs. rbind (mapM group_by_infinite fs) (\<lambda>vs. ok (list_ex truthy vs))) (snd r))
          (\<lambda>ks. ok (Inr (group_into (zip ks (fst r)))))))"

declare group_by_infinite.simps [code]

text \<open>The order of a term: the sum of the orders of its factors.\<close>

definition term_order :: "expr list \<Rightarrow> nat" where
  "term_order fs = sum_list (map order_of fs)"

section \<open>Lemmas\<close>

lemma group_by_order_leaf [simp]:
  "is_leaf f \<Longrightarrow> group_by_order f = ok (Inl (order_of f))"
  by (subst group_by_order.simps) simp

lemma group_by_infinite_leaf [simp]:
  "is_leaf f \<Longrightarrow> group_by_infinite f = ok (Inl (is_boson f))"
  by (subst group_by_infinite.simps) simp

lemma foldl_add_orders:
  "foldl (\<lambda>acc f. acc + order_of f) acc fs = acc + term_order fs"
  by (induction fs arbitrary: acc) (simp_all add: term_order_def)

lemma sum_orders_leaves:
  "list_all is_leaf fs \<Longrightarrow>
   foldM (\<lambda>acc f. rbind (group_by_order f)
                    (\<lambda>v. case v of Inl n \<Rightarrow> ok (acc + n) | Inr _ \<Rightarrow> throw TypeError)) 0 fs
   = ok (term_order fs)"
  by (subst foldM_ok [where g = "\<lambda>acc f. acc + order_of f"])
     (auto simp: list_all_iff foldl_add_orders)

lemma any_boson_leaves:
  "list_all is_leaf fs \<Longrightarrow>
   rbind (mapM group_by_infinite fs) (\<lambda>vs. ok (list_ex truthy vs)) = ok (list_ex is_boson fs)"
proof -
  assume "list_all is_leaf fs"
  then have "mapM group_by_infinite fs = ok (map (\<lambda>f. Inl (is_boson f)) fs)"
    by (intro mapM_ok) (simp add: list_all_iff)
  then show ?thesis by (simp add: list_ex_iff)
qed

lemma classifiable_factors:
  assumes "classifiable e" "\<not> is_leaf e" "fs \<in> set (expand_terms e)"
  shows "list_all is_leaf (concat (map atom_factors fs))"
proof -
  have d: "snd (decompose e) = map (\<lambda>fs. concat (map atom_factors fs)) (expand_terms e)"
    using classifiable_generic [OF assms(1,2)] by simp
  from assms(1) have "list_all (list_all is_leaf) (snd (decompose e))"
    by (simp add: classifiable_def)
  with d assms(3) show ?thesis by (simp add: list_all_iff)
qed

lemma zip_map_map: "zip (map f xs) (map g xs) = map (\<lambda>x. (f x, g x)) xs"
  by (induction xs) simp_all

section \<open>Grouping by perturbative order\<close>

lemma group_by_order_eq:
  assumes "classifiable e" and "\<not> is_leaf e"
  shows "group_by_order e =
           ok (Inr (group_into (map (\<lambda>fs. (term_order (concat (map atom_factors fs)), term_of fs))
                                    (expand_terms e))))"
proof -
  from assms(1) have nc: "decomposes e" by (simp add: classifiable_def)
  have d: "decompose e = (map term_of (expand_terms e),
                          map (\<lambda>fs. concat (map atom_factors fs)) (expand_terms e))"
    using classifiable_generic [OF assms] by simp
  have "mapM (foldM (\<lambda>acc f. rbind (group_by_order f)
                     (\<lambda>v. case v of Inl n \<Rightarrow> ok (acc + n) | Inr _ \<Rightarrow> throw TypeError)) 0)
              (snd (decompose e)) = ok (map term_order (snd (decompose e)))"
    using classifiable_factors [OF assms] by (intro mapM_ok) (auto simp: d sum_orders_leaves)
  then have m: "mapM (foldM (\<lambda>acc f. rbind (group_by_order f)
                     (\<lambda>v. case v of Inl n \<Rightarrow> ok (acc + n) | Inr _ \<Rightarrow> throw TypeError)) 0)
              (map (\<lambda>fs. concat (map atom_factors fs)) (expand_terms e)) =
           ok (map (\<lambda>fs. term_order (concat (map atom_factors fs))) (expand_terms e))"
    by (simp add: d)
  have "group_by_order e = rbind (get_terms_and_factors e) (\<lambda>r.
        rbind (mapM (foldM (\<lambda>acc f. rbind (group_by_order f)
                                       (\<lambda>v. case v of Inl n \<Rightarrow> ok (acc + n)
                                                  | Inr _ \<Rightarrow> throw TypeError)) 0) (snd r))
          (\<lambda>ords. ok (Inr (group_into (zip ords (fst r))))))"
    using assms(2) by (subst group_by_order.simps) simp
  also have "\<dots> = ok (Inr (group_into (zip (map (\<lambda>fs. term_order (concat (map atom_factors fs))) (expand_terms e))
                                            (map term_of (expand_terms e)))))"
    by (simp only: gtf_decomposes [OF nc] d rbind_ok fst_conv snd_conv m)
  finally show ?thesis by (simp add: zip_map_map)
qed

lemma group_by_infinite_eq:
  assumes "classifiable e" and "\<not> is_leaf e"
  shows "group_by_infinite e =
           ok (Inr (group_into (map (\<lambda>fs. (list_ex is_boson (concat (map atom_factors fs)), term_of fs))
                                    (expand_terms e))))"
proof -
  from assms(1) have nc: "decomposes e" by (simp add: classifiable_def)
  have d: "decompose e = (map term_of (expand_terms e),
                          map (\<lambda>fs. concat (map atom_factors fs)) (expand_terms e))"
    using classifiable_generic [OF assms] by simp
  have "mapM (\<lambda>fs. rbind (mapM group_by_infinite fs) (\<lambda>vs. ok (list_ex truthy vs)))
              (snd (decompose e)) = ok (map (list_ex is_boson) (snd (decompose e)))"
    using classifiable_factors [OF assms] by (intro mapM_ok) (auto simp: d any_boson_leaves)
  then have m: "mapM (\<lambda>fs. rbind (mapM group_by_infinite fs) (\<lambda>vs. ok (list_ex truthy vs)))
              (map (\<lambda>fs. concat (map atom_factors fs)) (expand_terms e)) =
           ok (map (\<lambda>fs. list_ex is_boson (concat (map atom_factors fs))) (expand_terms e))"
    by (simp add: d)
  have "group_by_infinite e = rbind (get_terms_and_factors e) (\<lambda>r.
        rbind (mapM (\<lambda>fs. rbind (mapM group_by_infinite fs) (\<lambda>vs. ok (list_ex truthy vs))) (snd r))
          (\<lambda>ks. ok (Inr (group_into (zip ks (fst r))))))"
    using assms(2) by (subst group_by_infinite.simps) simp
  also have "\<dots> = ok (Inr (group_into (zip (map (\<lambda>fs. list_ex is_boson (concat (map atom_factors fs)))
                                                 (expand_terms e))
                                            (map term_of (expand_terms e)))))"
    by (simp only: gtf_decomposes [OF nc] d rbind_ok fst_conv snd_conv m)
  finally show ?thesis by (simp add: zip_map_map)
qed

lemma get0_group_terms:
  "get0 (group_into (map (\<lambda>fs. (key fs, term_of fs)) ts)) k = map term_of (filter (\<lambda>fs. key fs = k) ts)"
  by (induction ts) simp_all

lemma mset_partition_map:
  "mset (map f (filter P xs) @ map f (filter (\<lambda>x. \<not> P x) xs)) = mset (map f xs)"
  by (induction xs) auto

section \<open>Grouping by perturbative order\<close>

text \<open>
  C3: on an expression whose factors are all leaves, \<open>group_by_order\<close> returns a
  dictionary that maps each order to the terms (in their order) whose factor orders sum
  to it; an order that no term has is absent (it reads as 0).
\<close>

theorem group_by_order_groups:
  assumes "classifiable e" and "\<not> is_leaf e"
  shows "\<exists>d. group_by_order e = ok (Inr d) \<and> distinct (map fst d) \<and>
             (\<forall>k. get0 d k = map term_of (filter (\<lambda>fs. term_order (concat (map atom_factors fs)) = k)
                                                 (expand_terms e)))"
proof -
  have "\<forall>k. get0 (group_into (map (\<lambda>fs. (term_order (concat (map atom_factors fs)), term_of fs))
                                  (expand_terms e))) k =
             map term_of (filter (\<lambda>fs. term_order (concat (map atom_factors fs)) = k) (expand_terms e))"
    by (simp only: get0_group_terms simp_thms)
  then show ?thesis using group_by_order_eq [OF assms] by simp
qed

section \<open>Grouping by finite and infinite content\<close>

text \<open>
  C4: on an expression whose factors are all leaves, \<open>group_by_infinite\<close> partitions
  the terms (spec section 8): the \<open>True\<close> group holds exactly the terms with a boson
  factor, the \<open>False\<close> group the others, and together they are the terms of the
  expression.
\<close>

theorem group_by_infinite_partition:
  assumes "classifiable e" and "\<not> is_leaf e"
  shows "\<exists>d. group_by_infinite e = ok (Inr d) \<and>
             get0 d True = map term_of (filter (\<lambda>fs. list_ex is_boson (concat (map atom_factors fs)))
                                              (expand_terms e)) \<and>
             get0 d False = map term_of (filter (\<lambda>fs. \<not> list_ex is_boson (concat (map atom_factors fs)))
                                               (expand_terms e)) \<and>
             mset (get0 d True @ get0 d False) = mset (map term_of (expand_terms e))"
proof -
  let ?P = "\<lambda>fs. list_ex is_boson (concat (map atom_factors fs))"
  let ?d = "group_into (map (\<lambda>fs. (?P fs, term_of fs)) (expand_terms e))"
  have t: "get0 ?d True = map term_of (filter ?P (expand_terms e))"
    by (simp only: get0_group_terms simp_thms)
  have f: "get0 ?d False = map term_of (filter (\<lambda>fs. \<not> ?P fs) (expand_terms e))"
    by (simp only: get0_group_terms simp_thms)
  have "mset (get0 ?d True @ get0 ?d False) = mset (map term_of (expand_terms e))"
    by (simp only: t f mset_partition_map)
  with t f show ?thesis using group_by_infinite_eq [OF assms] by blast
qed

section \<open>Witnesses\<close>



text \<open>Scenario B of the spec: \<open>s1*opA + s2*opA*opA\<close> with orders 1 and 2.\<close>

theorem group_by_order_groups_witness:
  "classifiable (Sum [Prod [Sym ''s1'' 1, FinOp ''opA'' ''X'' 2 [[0, 1], [1, 0]]],
                      Prod [Sym ''s2'' 2, FinOp ''opA'' ''X'' 2 [[0, 1], [1, 0]],
                            FinOp ''opA'' ''X'' 2 [[0, 1], [1, 0]]]]) \<and>
   \<not> is_leaf (Sum [Prod [Sym ''s1'' 1, FinOp ''opA'' ''X'' 2 [[0, 1], [1, 0]]],
                    Prod [Sym ''s2'' 2, FinOp ''opA'' ''X'' 2 [[0, 1], [1, 0]],
                          FinOp ''opA'' ''X'' 2 [[0, 1], [1, 0]]]]) \<and>
   (\<exists>d. group_by_order (Sum [Prod [Sym ''s1'' 1, FinOp ''opA'' ''X'' 2 [[0, 1], [1, 0]]],
                               Prod [Sym ''s2'' 2, FinOp ''opA'' ''X'' 2 [[0, 1], [1, 0]],
                                     FinOp ''opA'' ''X'' 2 [[0, 1], [1, 0]]]]) = ok (Inr d) \<and>
        get0 d 1 = [Prod [Sym ''s1'' 1, FinOp ''opA'' ''X'' 2 [[0, 1], [1, 0]]]] \<and>
        get0 d 2 = [Prod [Sym ''s2'' 2, FinOp ''opA'' ''X'' 2 [[0, 1], [1, 0]],
                          FinOp ''opA'' ''X'' 2 [[0, 1], [1, 0]]]] \<and>
        get0 d 0 = [])"
proof -
  let ?e = "Sum [Prod [Sym ''s1'' 1, FinOp ''opA'' ''X'' 2 [[0, 1], [1, 0]]],
                 Prod [Sym ''s2'' 2, FinOp ''opA'' ''X'' 2 [[0, 1], [1, 0]],
                       FinOp ''opA'' ''X'' 2 [[0, 1], [1, 0]]]]"
  have c: "classifiable ?e"
    by (simp add: classifiable_def decomposes_def decompose_def has_comm_atom_def distrib_def)
  have l: "\<not> is_leaf ?e" by simp
  from group_by_order_groups [OF c l] obtain d where
    "group_by_order ?e = ok (Inr d)"
    "\<forall>k. get0 d k = map term_of (filter (\<lambda>fs. term_order (concat (map atom_factors fs)) = k)
                                        (expand_terms ?e))"
    by blast
  with c l show ?thesis by (simp add: distrib_def term_order_def)
qed

theorem group_by_infinite_partition_witness:
  "classifiable (Sum [Prod [Sym ''g'' 1, Boson ''a'' ''a'' Creation],
                      Prod [Sym ''w'' 0, FinOp ''sz'' ''spin'' 2 [[1, 0], [0, -1]]]]) \<and>
   \<not> is_leaf (Sum [Prod [Sym ''g'' 1, Boson ''a'' ''a'' Creation],
                    Prod [Sym ''w'' 0, FinOp ''sz'' ''spin'' 2 [[1, 0], [0, -1]]]]) \<and>
   (\<exists>d. group_by_infinite (Sum [Prod [Sym ''g'' 1, Boson ''a'' ''a'' Creation],
                                  Prod [Sym ''w'' 0, FinOp ''sz'' ''spin'' 2 [[1, 0], [0, -1]]]])
           = ok (Inr d) \<and>
        mset (get0 d True @ get0 d False) =
        mset [Prod [Sym ''g'' 1, Boson ''a'' ''a'' Creation],
              Prod [Sym ''w'' 0, FinOp ''sz'' ''spin'' 2 [[1, 0], [0, -1]]]])"
proof -
  let ?e = "Sum [Prod [Sym ''g'' 1, Boson ''a'' ''a'' Creation],
                 Prod [Sym ''w'' 0, FinOp ''sz'' ''spin'' 2 [[1, 0], [0, -1]]]]"
  have c: "classifiable ?e"
    by (simp add: classifiable_def decomposes_def decompose_def has_comm_atom_def distrib_def)
  have l: "\<not> is_leaf ?e" by simp
  from group_by_infinite_partition [OF c l] obtain d where
    "group_by_infinite ?e = ok (Inr d)"
    "mset (get0 d True @ get0 d False) = mset (map term_of (expand_terms ?e))"
    by blast
  with c l show ?thesis by (simp add: distrib_def)
qed

end
