(* ===== verification/Diagonal.thy ===== *)
theory Diagonal
  imports Classify
begin

text \<open>
  The boson counter and the diagonal classifier of \<open>src/Modules/sympy/utils.py\<close>:
  \<open>count_bosons\<close> (lines 89--117) and \<open>group_by_diagonal\<close> (lines 121--145), with the
  test of a lone \<open>RDOperator\<close>'s matrix (line 124). The counter's result has three
  shapes, as in the code: \<open>None\<close> for a non-boson leaf, a pair \<open>(subspace, {kind: 1})\<close>
  for a boson, and the nested dictionary \<open>{mode: {kind: count}}\<close> for any other
  expression. \<open>group_by_diagonal\<close> calls the counter on each \<emph>\<open>term\<close> and reads
  \<open>.values()\<close> of its result, which only the dictionary has.
\<close>

datatype boson_count =
    NoBosons
  | OneBoson string ladder
  | Counts "(string \<times> (ladder \<times> nat) list) list"

definition get_count :: "(ladder \<times> nat) list \<Rightarrow> ladder \<Rightarrow> nat" where
  "get_count d k = (case map_of d k of None \<Rightarrow> 0 | Some n \<Rightarrow> n)"

text \<open>The update of lines 111--115 for the one item \<open>{kind: 1}\<close> of a boson.\<close>

definition add_boson ::
  "(string \<times> (ladder \<times> nat) list) list \<Rightarrow> string \<Rightarrow> ladder \<Rightarrow> (string \<times> (ladder \<times> nat) list) list" where
  "add_boson c m k =
     (case map_of c m of
        None \<Rightarrow> AList.update m [(k, 1)] c
      | Some d \<Rightarrow> AList.update m (AList.update k (get_count d k + 1) d) c)"

partial_function (option) count_bosons :: "expr \<Rightarrow> boson_count res" where
  "count_bosons e =
     (case e of
        Boson _ m k \<Rightarrow> ok (OneBoson m k)
      | _ \<Rightarrow> if is_leaf e then ok NoBosons
            else rbind (get_terms_and_factors e) (\<lambda>r.
              rbind (foldM (\<lambda>c f. rbind (count_bosons f) (\<lambda>v. case v of
                              NoBosons \<Rightarrow> ok c
                            | OneBoson m k \<Rightarrow> ok (add_boson c m k)
                            | Counts d \<Rightarrow> throw (if length d = 2 then AttributeError else ValueError)))
                           [] (concat (snd r)))
                (\<lambda>c. ok (Counts c))))"

declare count_bosons.simps [code]

text \<open>
  Line 124: \<open>np_sum(Abs(M - diag(*M.diagonal()))) == 0\<close>. The subtraction needs equal
  shapes, so a matrix that is not square raises sympy's \<open>ShapeError\<close>.
\<close>

definition ncols :: "mat \<Rightarrow> nat" where
  "ncols M = (case M of [] \<Rightarrow> 0 | r # _ \<Rightarrow> length r)"

definition diagonal_of :: "mat \<Rightarrow> int list" where
  "diagonal_of M = map (\<lambda>i. M ! i ! i) [0..<min (length M) (ncols M)]"

definition diag_mat :: "int list \<Rightarrow> mat" where
  "diag_mat ds = map (\<lambda>i. map (\<lambda>j. if i = j then ds ! i else 0) [0..<length ds]) [0..<length ds]"

definition mat_sub :: "mat \<Rightarrow> mat \<Rightarrow> mat" where
  "mat_sub A B = map2 (map2 (-)) A B"

definition mat_is_diagonal :: "mat \<Rightarrow> bool res" where
  "mat_is_diagonal M =
     (if length M = ncols M
      then ok (sum_list (map abs (concat (mat_sub M (diag_mat (diagonal_of M))))) = 0)
      else throw ShapeError)"

text \<open>The reference: every entry off the diagonal is zero (spec section 4.2).\<close>

definition offdiag_zero :: "mat \<Rightarrow> bool" where
  "offdiag_zero M \<longleftrightarrow>
     list_all (\<lambda>i. list_all (\<lambda>j. i = j \<or> M ! i ! j = 0) [0..<length M]) [0..<length M]"

text \<open>Line 140: every mode has as many creation as annihilation operators.\<close>

definition boson_balanced :: "(string \<times> (ladder \<times> nat) list) list \<Rightarrow> bool" where
  "boson_balanced c \<longleftrightarrow> list_all (\<lambda>md. get_count (snd md) Creation = get_count (snd md) Annihilation) c"

partial_function (option) group_by_diagonal :: "expr \<Rightarrow> (bool, expr list) dict res" where
  "group_by_diagonal e =
     (case e of
        FinOp _ _ _ M \<Rightarrow> rbind (mat_is_diagonal M) (\<lambda>b. ok [(b, [e])])
      | Sym _ _ \<Rightarrow> ok [(True, [e])]
      | Num _ \<Rightarrow> ok [(True, [e])]
      | _ \<Rightarrow> rbind (get_terms_and_factors e) (\<lambda>r.
              rbind (mapM (\<lambda>tf. rbind (count_bosons (fst tf)) (\<lambda>bc. case bc of
                         Counts c \<Rightarrow>
                           rbind (mapM (\<lambda>f. rbind (group_by_diagonal f) (\<lambda>d. py_first (map fst d)))
                                       (filter (\<lambda>f. \<not> is_boson f) (snd tf)))
                             (\<lambda>bs. ok (boson_balanced c \<and> list_all id bs))
                       | _ \<Rightarrow> throw AttributeError))
                     (zip (fst r) (snd r)))
                (\<lambda>ks. ok (group_into (zip ks (fst r))))))"

declare group_by_diagonal.simps [code]

section \<open>The reference counts\<close>

text \<open>The (mode, kind) pair of every boson factor, and the counts the code keeps.\<close>

fun boson_pair :: "expr \<Rightarrow> (string \<times> ladder) list" where
  "boson_pair (Boson _ m k) = [(m, k)]"
| "boson_pair _ = []"

definition boson_pairs :: "expr list \<Rightarrow> (string \<times> ladder) list" where
  "boson_pairs fs = concat (map boson_pair fs)"

definition lookup_count :: "(string \<times> (ladder \<times> nat) list) list \<Rightarrow> string \<Rightarrow> ladder \<Rightarrow> nat" where
  "lookup_count c m k = (case map_of c m of None \<Rightarrow> 0 | Some d \<Rightarrow> get_count d k)"

text \<open>
  The reference classification of a term with factors \<open>xs\<close> (spec section 4.2): the
  bosons of every mode balance, and every finite factor is diagonal.
\<close>

definition balanced_pairs :: "(string \<times> ladder) list \<Rightarrow> bool" where
  "balanced_pairs ps \<longleftrightarrow>
     (\<forall>m \<in> fst ` set ps. count (mset ps) (m, Creation) = count (mset ps) (m, Annihilation))"

fun finite_diagonal :: "expr \<Rightarrow> bool" where
  "finite_diagonal (FinOp _ _ _ M) = offdiag_zero M"
| "finite_diagonal _ = True"

fun square_op :: "expr \<Rightarrow> bool" where
  "square_op (FinOp _ _ n M) = is_sq n M"
| "square_op _ = True"

definition term_diagonal :: "expr list \<Rightarrow> bool" where
  "term_diagonal xs \<longleftrightarrow>
     balanced_pairs (boson_pairs xs) \<and> list_all finite_diagonal (filter (\<lambda>f. \<not> is_boson f) xs)"

text \<open>The expressions on which the diagonal classifier's terms are all products or powers.\<close>

definition diag_classifiable :: "expr \<Rightarrow> bool" where
  "diag_classifiable e \<longleftrightarrow>
     classifiable e \<and> \<not> is_leaf e \<and> list_all (\<lambda>fs. \<not> is_leaf (term_of fs)) (expand_terms e) \<and>
     list_all square_op (concat (snd (decompose e)))"

section \<open>Lemmas on the counter\<close>

lemma lookup_count_add_boson [simp]:
  "lookup_count (add_boson c m k) m' k' = lookup_count c m' k' + (if (m', k') = (m, k) then 1 else 0)"
  by (auto simp: lookup_count_def add_boson_def get_count_def update_conv' split: option.splits)

lemma keys_add_boson [simp]: "fst ` set (add_boson c m k) = insert m (fst ` set c)"
  by (simp add: add_boson_def dom_update split: option.splits)

lemma distinct_add_boson: "distinct (map fst c) \<Longrightarrow> distinct (map fst (add_boson c m k))"
  by (simp add: add_boson_def distinct_update split: option.splits)

lemma count_bosons_leaf [simp]:
  "is_leaf f \<Longrightarrow> count_bosons f = ok (case f of Boson _ m k \<Rightarrow> OneBoson m k | _ \<Rightarrow> NoBosons)"
  by (subst count_bosons.simps) (cases f; simp)

definition count_step :: "(string \<times> (ladder \<times> nat) list) list \<Rightarrow> expr \<Rightarrow> (string \<times> (ladder \<times> nat) list) list" where
  "count_step c f = (case f of Boson _ m k \<Rightarrow> add_boson c m k | _ \<Rightarrow> c)"

lemma count_fold_leaves:
  "list_all is_leaf fs \<Longrightarrow>
   foldM (\<lambda>c f. rbind (count_bosons f) (\<lambda>v. case v of
                    NoBosons \<Rightarrow> ok c
                  | OneBoson m k \<Rightarrow> ok (add_boson c m k)
                  | Counts d \<Rightarrow> throw (if length d = 2 then AttributeError else ValueError))) c fs
   = ok (foldl count_step c fs)"
  by (intro foldM_ok) (auto simp: list_all_iff count_step_def split: expr.splits)

lemma lookup_count_foldl:
  "lookup_count (foldl count_step c fs) m k = lookup_count c m k + count (mset (boson_pairs fs)) (m, k)"
proof (induction fs arbitrary: c)
  case Nil
  then show ?case by (simp add: boson_pairs_def)
next
  case (Cons f fs)
  then show ?case by (cases f) (auto simp: count_step_def boson_pairs_def)
qed

lemma keys_foldl_count:
  "fst ` set (foldl count_step c fs) = fst ` set c \<union> fst ` set (boson_pairs fs)"
proof (induction fs arbitrary: c)
  case Nil
  then show ?case by (simp add: boson_pairs_def)
next
  case (Cons f fs)
  then show ?case by (cases f) (auto simp: count_step_def boson_pairs_def)
qed

lemma distinct_foldl_count:
  "distinct (map fst c) \<Longrightarrow> distinct (map fst (foldl count_step c fs))"
proof (induction fs arbitrary: c)
  case Nil
  then show ?case by simp
next
  case (Cons f fs)
  then show ?case by (cases f) (simp_all add: count_step_def distinct_add_boson)
qed

lemma count_bosons_eq:
  assumes "classifiable e" and "\<not> is_leaf e"
  shows "count_bosons e = ok (Counts (foldl count_step [] (concat (snd (decompose e)))))"
proof -
  from assms(1) have nc: "decomposes e" and l: "list_all is_leaf (concat (snd (decompose e)))"
    by (simp_all add: classifiable_def list_all_iff)
  have "count_bosons e = rbind (get_terms_and_factors e) (\<lambda>r.
              rbind (foldM (\<lambda>c f. rbind (count_bosons f) (\<lambda>v. case v of
                              NoBosons \<Rightarrow> ok c
                            | OneBoson m k \<Rightarrow> ok (add_boson c m k)
                            | Counts d \<Rightarrow> throw (if length d = 2 then AttributeError else ValueError)))
                           [] (concat (snd r)))
                (\<lambda>c. ok (Counts c)))"
    using assms(2) by (subst count_bosons.simps) (cases e; simp)
  also have "\<dots> = ok (Counts (foldl count_step [] (concat (snd (decompose e)))))"
    by (simp only: gtf_decomposes [OF nc] rbind_ok count_fold_leaves [OF l])
  finally show ?thesis .
qed

section \<open>Counting bosons\<close>

text \<open>
  C5: on an expression whose factors are leaves, \<open>count_bosons\<close> returns a dictionary
  with one entry per mode that occurs, whose count of each kind is the number of boson
  factors of that mode and kind over all terms (absent kinds read as 0); a mode with no
  boson is absent, not counted as zero.
\<close>

theorem count_bosons_counts:
  assumes "classifiable e" and "\<not> is_leaf e"
  shows "\<exists>c. count_bosons e = ok (Counts c) \<and> distinct (map fst c) \<and>
             fst ` set c = fst ` set (boson_pairs (concat (snd (decompose e)))) \<and>
             (\<forall>m k. lookup_count c m k = count (mset (boson_pairs (concat (snd (decompose e))))) (m, k))"
  using count_bosons_eq [OF assms] lookup_count_foldl [of "[]"] keys_foldl_count [of "[]"]
    distinct_foldl_count [of "[]"]
  by (simp add: lookup_count_def)

section \<open>The diagonal-matrix test\<close>

lemma sum_abs_eq_0: "sum_list (map abs xs) = (0::int) \<longleftrightarrow> (\<forall>x \<in> set xs. x = 0)"
  by (subst sum_list_nonneg_eq_0_iff) auto

lemma ncols_is_sq: "is_sq n M \<Longrightarrow> ncols M = n"
  by (cases M) (auto simp: ncols_def is_sq_def)

lemma mat_sub_diag_is_sq:
  assumes "is_sq n M"
  shows "mat_sub M (diag_mat (diagonal_of M)) =
           map (\<lambda>i. map (\<lambda>j. if i = j then 0 else M ! i ! j) [0..<n]) [0..<n]"
proof -
  have l: "length M = n" and r: "\<And>i. i < n \<Longrightarrow> length (M ! i) = n"
    using assms by (auto simp: is_sq_def)
  have dg: "diagonal_of M = map (\<lambda>i. M ! i ! i) [0..<n]"
    using assms by (simp add: diagonal_of_def ncols_is_sq l)
  show ?thesis
    by (rule nth_equalityI) (auto simp: mat_sub_def diag_mat_def dg l r intro!: nth_equalityI)
qed

lemma mat_is_diagonal_sq:
  assumes "is_sq n M"
  shows "mat_is_diagonal M = ok (offdiag_zero M)"
proof -
  have l: "length M = n" using assms by (simp add: is_sq_def)
  have "sum_list (map abs (concat (mat_sub M (diag_mat (diagonal_of M))))) = 0 \<longleftrightarrow> offdiag_zero M"
    by (auto simp: mat_sub_diag_is_sq [OF assms] sum_abs_eq_0 offdiag_zero_def list_all_iff l)
  then show ?thesis by (simp add: mat_is_diagonal_def ncols_is_sq [OF assms] l)
qed

text \<open>
  C6: on a square matrix the code's test \<open>sum |M - diag(diagonal(M))| == 0\<close> returns, and
  it holds exactly when every entry off the diagonal is zero.
\<close>

theorem mat_is_diagonal_correct:
  assumes "is_sq n M"
  shows "mat_is_diagonal M = ok (offdiag_zero M)"
  using assms by (rule mat_is_diagonal_sq)

section \<open>Lemmas on the diagonal classifier\<close>

lemma boson_balanced_iff:
  "boson_balanced (foldl count_step [] xs) \<longleftrightarrow> balanced_pairs (boson_pairs xs)"
proof -
  let ?c = "foldl count_step [] xs"
  have dist: "distinct (map fst ?c)" by (rule distinct_foldl_count) simp
  have keys: "fst ` set ?c = fst ` set (boson_pairs xs)"
    using keys_foldl_count [of "[]"] by simp
  have get: "get_count d k = count (mset (boson_pairs xs)) (m, k)" if "(m, d) \<in> set ?c" for m d k
  proof -
    from dist that have "map_of ?c m = Some d" by (rule map_of_is_SomeI)
    then show ?thesis using lookup_count_foldl [of "[]" xs m k] by (simp add: lookup_count_def)
  qed
  have "boson_balanced ?c \<longleftrightarrow>
        (\<forall>m \<in> fst ` set ?c. count (mset (boson_pairs xs)) (m, Creation) =
                             count (mset (boson_pairs xs)) (m, Annihilation))"
    by (auto simp: boson_balanced_def list_all_iff get)
  then show ?thesis by (simp add: keys balanced_pairs_def)
qed

lemma group_by_diagonal_leaf_key:
  "is_leaf f \<Longrightarrow> \<not> is_boson f \<Longrightarrow> square_op f \<Longrightarrow>
   rbind (group_by_diagonal f) (\<lambda>d. py_first (map fst d)) = ok (finite_diagonal f)"
proof (cases f)
  case (FinOp x y n M)
  moreover assume "square_op f"
  ultimately show ?thesis
    by (subst group_by_diagonal.simps) (simp add: mat_is_diagonal_sq py_first_def)
qed (subst group_by_diagonal.simps; simp add: py_first_def)+

lemma term_decompose:
  assumes "\<forall>f \<in> set fs. is_atom f" "\<not> list_ex is_comm fs" "\<not> is_leaf (term_of fs)"
  shows "decomposes (term_of fs) \<and> decompose (term_of fs) = ([term_of fs], [concat (map atom_factors fs)])"
proof (cases fs rule: term_of.cases)
  case 1
  with assms(3) show ?thesis by simp
next
  case (2 f)
  with assms have "is_power f" by (auto simp: is_atom_def)
  then obtain b n where "f = Power b n" by (cases f) auto
  with 2 show ?thesis by (simp add: decomposes_def decompose_def)
next
  case (3 f g hs)
  have ex: "expand_terms (Prod fs) = [fs]"
    using assms(1) distrib_singletons [of fs] by (simp add: expand_atom cong: map_cong)
  with assms(2) 3 show ?thesis
    by (simp add: decomposes_def decompose_def has_comm_atom_def)
qed

lemma count_bosons_term:
  assumes "classifiable e" "\<not> is_leaf e" "fs \<in> set (expand_terms e)" "\<not> is_leaf (term_of fs)"
  shows "count_bosons (term_of fs) = ok (Counts (foldl count_step [] (concat (map atom_factors fs))))"
proof -
  have nc: "\<not> has_comm_atom e" using classifiable_generic [OF assms(1,2)] by simp
  have at: "\<forall>f \<in> set fs. is_atom f" using expand_terms_atoms assms(3) by blast
  have "\<not> list_ex is_comm fs" using nc assms(3) by (auto simp: has_comm_atom_iff list_ex_iff)
  with at assms(4) have td: "decomposes (term_of fs)"
    "decompose (term_of fs) = ([term_of fs], [concat (map atom_factors fs)])"
    by (simp_all add: term_decompose)
  have "classifiable (term_of fs)"
    using td classifiable_factors [OF assms(1-3)] by (simp add: classifiable_def)
  then show ?thesis using count_bosons_eq assms(4) td(2) by simp
qed

lemma group_by_diagonal_eq:
  assumes "diag_classifiable e"
  shows "group_by_diagonal e =
           ok (group_into (map (\<lambda>fs. (term_diagonal (concat (map atom_factors fs)), term_of fs))
                               (expand_terms e)))"
proof -
  from assms have c: "classifiable e" and l: "\<not> is_leaf e"
    and tl: "\<And>fs. fs \<in> set (expand_terms e) \<Longrightarrow> \<not> is_leaf (term_of fs)"
    and sq: "list_all square_op (concat (snd (decompose e)))"
    by (auto simp: diag_classifiable_def list_all_iff)
  from c have nc: "decomposes e" by (simp add: classifiable_def)
  have d: "decompose e = (map term_of (expand_terms e),
                          map (\<lambda>fs. concat (map atom_factors fs)) (expand_terms e))"
    using classifiable_generic [OF c l] by simp
  let ?body = "\<lambda>tf. rbind (count_bosons (fst tf)) (\<lambda>bc. case bc of
                         Counts c \<Rightarrow>
                           rbind (mapM (\<lambda>f. rbind (group_by_diagonal f) (\<lambda>d. py_first (map fst d)))
                                       (filter (\<lambda>f. \<not> is_boson f) (snd tf)))
                             (\<lambda>bs. ok (boson_balanced c \<and> list_all id bs))
                       | _ \<Rightarrow> throw AttributeError)"
  have step: "?body (term_of fs, concat (map atom_factors fs)) = ok (term_diagonal (concat (map atom_factors fs)))"
    if fs: "fs \<in> set (expand_terms e)" for fs
  proof -
    have lv: "list_all is_leaf (concat (map atom_factors fs))"
      using classifiable_factors [OF c l fs] .
    have sqf: "list_all square_op (concat (map atom_factors fs))"
      using sq fs by (simp add: d list_all_iff)
    have "mapM (\<lambda>f. rbind (group_by_diagonal f) (\<lambda>d. py_first (map fst d)))
               (filter (\<lambda>f. \<not> is_boson f) (concat (map atom_factors fs))) =
          ok (map finite_diagonal (filter (\<lambda>f. \<not> is_boson f) (concat (map atom_factors fs))))"
      using lv sqf by (intro mapM_ok) (auto simp: list_all_iff intro!: group_by_diagonal_leaf_key)
    then show ?thesis
      using count_bosons_term [OF c l fs tl [OF fs]]
      by (simp add: boson_balanced_iff term_diagonal_def list_all_iff)
  qed
  have m: "mapM ?body (zip (fst (decompose e)) (snd (decompose e))) =
           ok (map (\<lambda>fs. term_diagonal (concat (map atom_factors fs))) (expand_terms e))"
    unfolding d fst_conv snd_conv zip_map_map by (rule mapM_map_ok) (rule step)
  have "group_by_diagonal e = rbind (get_terms_and_factors e) (\<lambda>r.
              rbind (mapM ?body (zip (fst r) (snd r)))
                (\<lambda>ks. ok (group_into (zip ks (fst r)))))"
    using l by (subst group_by_diagonal.simps) (cases e; simp)
  also have "\<dots> = ok (group_into (zip (map (\<lambda>fs. term_diagonal (concat (map atom_factors fs))) (expand_terms e))
                                        (map term_of (expand_terms e))))"
    by (simp only: gtf_decomposes [OF nc] rbind_ok m) (simp add: d)
  finally show ?thesis by (simp add: zip_map_map)
qed

lemma foldl_dict_add_same_key:
  "foldl dict_add [(k, vs)] (map (\<lambda>x. (k, g x)) xs) = [(k, vs @ map g xs)]"
  by (induction xs arbitrary: vs) (simp_all add: dict_add_def get0_def)

lemma group_into_same_key:
  "xs \<noteq> [] \<Longrightarrow> group_into (map (\<lambda>x. (k, g x)) xs) = [(k, map g xs)]"
  by (cases xs) (simp_all add: group_into_def dict_add_def get0_def foldl_dict_add_same_key)

section \<open>Classifying terms as diagonal or not\<close>

text \<open>
  C7: on an expression that is already diagonal (every term has balanced bosons and only
  diagonal finite factors, spec section 8), \<open>group_by_diagonal\<close> returns the single
  group \<open>{True: expr}\<close>, provided no term is a lone leaf and every matrix is square.
\<close>

theorem group_by_diagonal_all_diagonal:
  assumes "diag_classifiable e" and "expand_terms e \<noteq> []"
    and "\<forall>fs \<in> set (expand_terms e). term_diagonal (concat (map atom_factors fs))"
  shows "group_by_diagonal e = ok [(True, map term_of (expand_terms e))]"
proof -
  have eq: "map (\<lambda>fs. (term_diagonal (concat (map atom_factors fs)), term_of fs)) (expand_terms e) =
            map (\<lambda>fs. (True, term_of fs)) (expand_terms e)"
    using assms(3) by simp
  show ?thesis
    by (simp only: group_by_diagonal_eq [OF assms(1)] eq group_into_same_key [OF assms(2)])
qed

text \<open>
  C8: on the same expressions, \<open>group_by_diagonal\<close> puts a term in the \<open>True\<close> group
  exactly when its bosons balance per mode and all its finite factors are diagonal, and
  every other term in the \<open>False\<close> group, in their order.
\<close>

theorem group_by_diagonal_classifies:
  assumes "diag_classifiable e"
  shows "\<exists>d. group_by_diagonal e = ok d \<and>
             get0 d True = map term_of (filter (\<lambda>fs. term_diagonal (concat (map atom_factors fs)))
                                              (expand_terms e)) \<and>
             get0 d False = map term_of (filter (\<lambda>fs. \<not> term_diagonal (concat (map atom_factors fs)))
                                               (expand_terms e))"
proof -
  let ?P = "\<lambda>fs. term_diagonal (concat (map atom_factors fs))"
  let ?d = "group_into (map (\<lambda>fs. (?P fs, term_of fs)) (expand_terms e))"
  have t: "get0 ?d True = map term_of (filter ?P (expand_terms e))"
    by (simp only: get0_group_terms simp_thms)
  have f: "get0 ?d False = map term_of (filter (\<lambda>fs. \<not> ?P fs) (expand_terms e))"
    by (simp only: get0_group_terms simp_thms)
  from t f show ?thesis using group_by_diagonal_eq [OF assms] by blast
qed

text \<open>
  C9: a term whose creation and annihilation counts differ for some mode is classified
  non-diagonal, whatever its finite factors (spec section 8).
\<close>

theorem group_by_diagonal_unbalanced:
  assumes "diag_classifiable e" and "fs \<in> set (expand_terms e)"
    and "\<not> balanced_pairs (boson_pairs (concat (map atom_factors fs)))"
  shows "\<exists>d. group_by_diagonal e = ok d \<and> term_of fs \<in> set (get0 d False)"
proof -
  have "term_of fs \<in> set (get0 (group_into (map (\<lambda>fs. (term_diagonal (concat (map atom_factors fs)), term_of fs))
                                              (expand_terms e))) False)"
    using assms(2,3) by (auto simp only: get0_group_terms set_map set_filter term_diagonal_def)
  then show ?thesis using group_by_diagonal_eq [OF assms(1)] by blast
qed

text \<open>
  C10: if the first term of an expression is a lone leaf (a bare operator, symbol, number
  or boson), \<open>group_by_diagonal\<close> raises \<open>AttributeError\<close>: the counter returns
  \<open>None\<close> or a pair for a leaf, and the code reads \<open>.values()\<close> of it (line 140).
\<close>

theorem group_by_diagonal_lone_leaf_term:
  assumes "\<not> is_leaf e" "\<not> is_power e" "decomposes e"
    and "expand_terms e = [f] # ts" and "is_leaf f"
  shows "group_by_diagonal e = throw AttributeError"
proof -
  have d: "get_terms_and_factors e = ok (f # map term_of ts, [f] # map (\<lambda>fs. concat (map atom_factors fs)) ts)"
    using gtf_decomposes [OF assms(3)] decompose_generic [OF assms(1,2)] assms(4,5)
    by (cases f) simp_all
  have cb: "count_bosons f = ok NoBosons \<or> (\<exists>m k. count_bosons f = ok (OneBoson m k))"
    using assms(5) by (cases f) simp_all
  have "group_by_diagonal e = rbind (get_terms_and_factors e) (\<lambda>r.
              rbind (mapM (\<lambda>tf. rbind (count_bosons (fst tf)) (\<lambda>bc. case bc of
                         Counts c \<Rightarrow>
                           rbind (mapM (\<lambda>f. rbind (group_by_diagonal f) (\<lambda>d. py_first (map fst d)))
                                       (filter (\<lambda>f. \<not> is_boson f) (snd tf)))
                             (\<lambda>bs. ok (boson_balanced c \<and> list_all id bs))
                       | _ \<Rightarrow> throw AttributeError))
                     (zip (fst r) (snd r)))
                (\<lambda>ks. ok (group_into (zip ks (fst r)))))"
    using assms(1) by (subst group_by_diagonal.simps) (cases e; simp)
  with d cb show ?thesis by auto
qed

section \<open>Witnesses\<close>


theorem group_by_diagonal_all_diagonal_witness:
  "diag_classifiable (Sum [Prod [Sym ''hbar'' 0, Boson ''a'' ''a'' Creation, Boson ''a'' ''a'' Annihilation],
                           Prod [Sym ''wz'' 0, FinOp ''sz'' ''spin'' 2 [[1, 0], [0, -1]]]]) \<and>
   group_by_diagonal (Sum [Prod [Sym ''hbar'' 0, Boson ''a'' ''a'' Creation, Boson ''a'' ''a'' Annihilation],
                           Prod [Sym ''wz'' 0, FinOp ''sz'' ''spin'' 2 [[1, 0], [0, -1]]]]) =
     ok [(True, [Prod [Sym ''hbar'' 0, Boson ''a'' ''a'' Creation, Boson ''a'' ''a'' Annihilation],
                 Prod [Sym ''wz'' 0, FinOp ''sz'' ''spin'' 2 [[1, 0], [0, -1]]]])]"
proof -
  let ?e = "Sum [Prod [Sym ''hbar'' 0, Boson ''a'' ''a'' Creation, Boson ''a'' ''a'' Annihilation],
                 Prod [Sym ''wz'' 0, FinOp ''sz'' ''spin'' 2 [[1, 0], [0, -1]]]]"
  have c: "diag_classifiable ?e"
    by (simp add: diag_classifiable_def classifiable_def decomposes_def decompose_def
                  has_comm_atom_def distrib_def is_sq_def)
  have n: "expand_terms ?e \<noteq> []" by (simp add: distrib_def)
  have t: "\<forall>fs \<in> set (expand_terms ?e). term_diagonal (concat (map atom_factors fs))"
    by (simp add: distrib_def term_diagonal_def balanced_pairs_def boson_pairs_def offdiag_zero_def)
  show ?thesis using group_by_diagonal_all_diagonal [OF c n t] c by (simp add: distrib_def)
qed

text \<open>Scenario C of the spec: balanced bosons, an off-diagonal finite factor.\<close>

theorem group_by_diagonal_classifies_witness:
  "diag_classifiable (Prod [Sym ''g'' 1, Boson ''a'' ''a'' Creation, Boson ''a'' ''a'' Annihilation,
                            FinOp ''sx'' ''spin'' 2 [[0, 1], [1, 0]]]) \<and>
   (\<exists>d. group_by_diagonal (Prod [Sym ''g'' 1, Boson ''a'' ''a'' Creation, Boson ''a'' ''a'' Annihilation,
                                  FinOp ''sx'' ''spin'' 2 [[0, 1], [1, 0]]]) = ok d \<and>
        get0 d True = [] \<and>
        get0 d False = [Prod [Sym ''g'' 1, Boson ''a'' ''a'' Creation, Boson ''a'' ''a'' Annihilation,
                              FinOp ''sx'' ''spin'' 2 [[0, 1], [1, 0]]]])"
proof -
  let ?e = "Prod [Sym ''g'' 1, Boson ''a'' ''a'' Creation, Boson ''a'' ''a'' Annihilation,
                  FinOp ''sx'' ''spin'' 2 [[0, 1], [1, 0]]]"
  have c: "diag_classifiable ?e"
    by (simp add: diag_classifiable_def classifiable_def decomposes_def decompose_def
                  has_comm_atom_def distrib_def is_sq_def)
  have nt: "\<not> term_diagonal (concat (map atom_factors
              [Sym ''g'' 1, Boson ''a'' ''a'' Creation, Boson ''a'' ''a'' Annihilation,
               FinOp ''sx'' ''spin'' 2 [[0, 1], [1, 0]]]))"
    by (simp add: term_diagonal_def offdiag_zero_def)
  from group_by_diagonal_classifies [OF c] obtain d where
    "group_by_diagonal ?e = ok d"
    "get0 d True = map term_of (filter (\<lambda>fs. term_diagonal (concat (map atom_factors fs))) (expand_terms ?e))"
    "get0 d False = map term_of (filter (\<lambda>fs. \<not> term_diagonal (concat (map atom_factors fs))) (expand_terms ?e))"
    by blast
  with c nt show ?thesis by (simp add: distrib_def)
qed

theorem group_by_diagonal_unbalanced_witness:
  "diag_classifiable (Prod [Sym ''g'' 1, Boson ''a'' ''a'' Creation, FinOp ''sz'' ''spin'' 2 [[1, 0], [0, -1]]]) \<and>
   [Sym ''g'' 1, Boson ''a'' ''a'' Creation, FinOp ''sz'' ''spin'' 2 [[1, 0], [0, -1]]]
     \<in> set (expand_terms (Prod [Sym ''g'' 1, Boson ''a'' ''a'' Creation, FinOp ''sz'' ''spin'' 2 [[1, 0], [0, -1]]])) \<and>
   \<not> balanced_pairs (boson_pairs (concat (map atom_factors
        [Sym ''g'' 1, Boson ''a'' ''a'' Creation, FinOp ''sz'' ''spin'' 2 [[1, 0], [0, -1]]]))) \<and>
   (\<exists>d. group_by_diagonal (Prod [Sym ''g'' 1, Boson ''a'' ''a'' Creation, FinOp ''sz'' ''spin'' 2 [[1, 0], [0, -1]]]) = ok d \<and>
        term_of [Sym ''g'' 1, Boson ''a'' ''a'' Creation, FinOp ''sz'' ''spin'' 2 [[1, 0], [0, -1]]] \<in> set (get0 d False))"
proof -
  let ?fs = "[Sym ''g'' 1, Boson ''a'' ''a'' Creation, FinOp ''sz'' ''spin'' 2 [[1, 0], [0, -1]]]"
  have c: "diag_classifiable (Prod ?fs)"
    by (simp add: diag_classifiable_def classifiable_def decomposes_def decompose_def
                  has_comm_atom_def distrib_def is_sq_def)
  have m: "?fs \<in> set (expand_terms (Prod ?fs))" by (simp add: distrib_def)
  have u: "\<not> balanced_pairs (boson_pairs (concat (map atom_factors ?fs)))"
    by (simp add: balanced_pairs_def boson_pairs_def)
  show ?thesis using group_by_diagonal_unbalanced [OF c m u] c m u by blast
qed

theorem group_by_diagonal_lone_leaf_term_witness:
  "group_by_diagonal (Sum [FinOp ''sz'' ''spin'' 2 [[1, 0], [0, -1]],
                           Prod [Sym ''g'' 1, FinOp ''sx'' ''spin'' 2 [[0, 1], [1, 0]]]]) = throw AttributeError"
proof -
  let ?e = "Sum [FinOp ''sz'' ''spin'' 2 [[1, 0], [0, -1]],
                 Prod [Sym ''g'' 1, FinOp ''sx'' ''spin'' 2 [[0, 1], [1, 0]]]]"
  have h: "\<not> is_leaf ?e" "\<not> is_power ?e" "decomposes ?e"
    "expand_terms ?e = [FinOp ''sz'' ''spin'' 2 [[1, 0], [0, -1]]] #
                       [[Sym ''g'' 1, FinOp ''sx'' ''spin'' 2 [[0, 1], [1, 0]]]]"
    "is_leaf (FinOp ''sz'' ''spin'' 2 [[1, 0], [0, -1]])"
    by (simp_all add: decomposes_def has_comm_atom_def distrib_def)
  show ?thesis by (rule group_by_diagonal_lone_leaf_term [OF h])
qed

theorem count_bosons_counts_witness:
  "classifiable (Prod [Sym ''g'' 1, Boson ''a'' ''a'' Creation, Power (Boson ''a'' ''a'' Annihilation) 2,
                       Boson ''b'' ''b'' Creation]) \<and>
   \<not> is_leaf (Prod [Sym ''g'' 1, Boson ''a'' ''a'' Creation, Power (Boson ''a'' ''a'' Annihilation) 2,
                    Boson ''b'' ''b'' Creation]) \<and>
   (\<exists>c. count_bosons (Prod [Sym ''g'' 1, Boson ''a'' ''a'' Creation, Power (Boson ''a'' ''a'' Annihilation) 2,
                               Boson ''b'' ''b'' Creation]) = ok (Counts c) \<and>
        fst ` set c = {''a'', ''b''} \<and>
        lookup_count c ''a'' Creation = 1 \<and> lookup_count c ''a'' Annihilation = 2 \<and>
        lookup_count c ''b'' Creation = 1 \<and> lookup_count c ''b'' Annihilation = 0)"
proof -
  let ?e = "Prod [Sym ''g'' 1, Boson ''a'' ''a'' Creation, Power (Boson ''a'' ''a'' Annihilation) 2,
                  Boson ''b'' ''b'' Creation]"
  have c: "classifiable ?e"
    by (simp add: classifiable_def decomposes_def decompose_def has_comm_atom_def distrib_def
                  numeral_2_eq_2)
  have l: "\<not> is_leaf ?e" by simp
  from count_bosons_counts [OF c l] obtain cs where
    "count_bosons ?e = ok (Counts cs)"
    "fst ` set cs = fst ` set (boson_pairs (concat (snd (decompose ?e))))"
    "\<forall>m k. lookup_count cs m k = count (mset (boson_pairs (concat (snd (decompose ?e))))) (m, k)"
    by blast
  with c l show ?thesis
    by (auto simp: decompose_def distrib_def boson_pairs_def numeral_2_eq_2)
qed

theorem mat_is_diagonal_correct_witness:
  "is_sq 2 [[1, 0], [0, -1]] \<and> mat_is_diagonal [[1, 0], [0, -1]] = ok True \<and>
   is_sq 2 [[0, 1], [1, 0]] \<and> mat_is_diagonal [[0, 1], [1, 0]] = ok False"
proof -
  have a: "is_sq 2 [[1, 0], [0, -1 :: int]]" and b: "is_sq 2 [[0, 1], [1, 0 :: int]]"
    by (simp_all add: is_sq_def)
  show ?thesis
    using a b mat_is_diagonal_correct [OF a] mat_is_diagonal_correct [OF b]
    by (simp add: offdiag_zero_def)
qed

end
