(* ===== verification/Domain.thy ===== *)
theory Domain
  imports Diagonal
begin

text \<open>
  The domain expansion of \<open>src/Modules/sympy/utils.py\<close>: \<open>get_finite_identities\<close>
  (lines 148--166) collects one identity matrix per subspace an operator of the
  expression lives in, and \<open>domain_expansion\<close> (lines 170--221) replaces every finite
  operator by the Kronecker product, in the order of the given subspace list, of its own
  matrix at its subspace and the identity at every other one. A boson stays symbolic,
  multiplied by the Kronecker product of the identities; numbers and symbols stay scalars.

  The value of an expansion is a sum of terms; a term is the list of its symbolic factors
  (scalars and bosons, in order) and the product of its matrices, if it has any
  (\<open>tval\<close>). sympy builds the products and sums of the code's \<open>Mul(*...)\<close> and
  \<open>Add(*...)\<close> unevaluated (\<open>MatMul\<close>, \<open>MatAdd\<close>); the model evaluates them, and keeps
  the errors sympy raises when it builds them: \<open>ShapeError\<close> for incompatible shapes. A
  sum of a matrix and a scalar is built without error (the scalar stays a term of the
  sum). A product of sums is distributed, which is the same value.
\<close>

text \<open>\<open>dict.update\<close>: every entry of the second dictionary overwrites or extends the first.\<close>

definition dict_update :: "('k, 'v) dict \<Rightarrow> ('k, 'v) dict \<Rightarrow> ('k, 'v) dict" where
  "dict_update d u = foldl (\<lambda>acc kv. AList.update (fst kv) (snd kv) acc) d u"

partial_function (option) get_finite_identities :: "expr \<Rightarrow> (string, mat) dict res" where
  "get_finite_identities e =
     (case e of
        FinOp _ s n _ \<Rightarrow> ok [(s, eye n)]
      | _ \<Rightarrow> if is_leaf e then ok []
            else rbind (get_terms_and_factors e) (\<lambda>r.
              foldM (\<lambda>ids f. rbind (get_finite_identities f) (\<lambda>d. ok (dict_update ids d)))
                [] (concat (snd r))))"

declare get_finite_identities.simps [code]

text \<open>\<open>identities[subspace]\<close>: \<open>KeyError\<close> for a subspace the dictionary does not hold.\<close>

definition lookup_id :: "(string, mat) dict \<Rightarrow> string \<Rightarrow> mat res" where
  "lookup_id ids s = (case map_of ids s of None \<Rightarrow> throw KeyError | Some m \<Rightarrow> ok m)"

type_synonym tval = "expr list \<times> mat option"

definition shape :: "mat \<Rightarrow> nat \<times> nat" where
  "shape M = (length M, ncols M)"

definition tmul :: "tval \<Rightarrow> tval \<Rightarrow> tval res" where
  "tmul x y =
     (case (snd x, snd y) of
        (None, m) \<Rightarrow> ok (fst x @ fst y, m)
      | (m, None) \<Rightarrow> ok (fst x @ fst y, m)
      | (Some A, Some B) \<Rightarrow>
          if ncols A = length B then ok (fst x @ fst y, Some (mat_mul A B)) else throw ShapeError)"

definition vmul :: "tval list \<Rightarrow> tval list \<Rightarrow> tval list res" where
  "vmul xs ys = mapM (\<lambda>p. tmul (fst p) (snd p)) (List.product xs ys)"

text \<open>\<open>Mul(*vs)\<close>; the empty product is the scalar 1.\<close>

definition mul_all :: "tval list list \<Rightarrow> tval list res" where
  "mul_all vs = foldM vmul [([], None)] vs"

text \<open>
  \<open>Add(*vs)\<close> (line 221). sympy's \<open>Add\<close> hands a sum with explicit matrices to the
  matrix postprocessor, which adds the matrices (\<open>MatAdd\<close>: \<open>ShapeError\<close> unless they all
  have one shape) and keeps the scalar terms beside them, since \<open>Add(scalar, matrix)\<close>
  is built without raising. The value is the sum of its terms, scalars included.
\<close>

definition add_all :: "tval list list \<Rightarrow> tval list res" where
  "add_all vs =
     (let ts = concat vs; ms = filter (\<lambda>t. snd t \<noteq> None) ts in
      if list_all (\<lambda>t. map_option shape (snd t) = map_option shape (snd (hd ms))) ms
      then ok ts else throw ShapeError)"

text \<open>The optional \<open>identities\<close> argument: \<open>None\<close> is the code's default.\<close>

partial_function (option) domain_expansion ::
  "expr \<Rightarrow> string list \<Rightarrow> (string, mat) dict option \<Rightarrow> tval list res" where
  "domain_expansion e subspaces identities =
     (case e of
        Num _ \<Rightarrow> ok [([e], None)]
      | Sym _ _ \<Rightarrow> ok [([e], None)]
      | Boson _ _ _ \<Rightarrow>
          rbind (case identities of None \<Rightarrow> get_finite_identities e | Some ids \<Rightarrow> ok ids) (\<lambda>ids.
            rbind (mapM (lookup_id ids) subspaces) (\<lambda>ms.
              rbind (kron_list ms) (\<lambda>K. ok [([e], Some K)])))
      | FinOp _ s _ M \<Rightarrow>
          rbind (case identities of None \<Rightarrow> get_finite_identities e | Some ids \<Rightarrow> ok ids) (\<lambda>ids.
            rbind (mapM (\<lambda>s'. if s' \<noteq> s then lookup_id ids s' else ok M) subspaces) (\<lambda>ms.
              rbind (kron_list ms) (\<lambda>K. ok [([], Some K)])))
      | _ \<Rightarrow>
          rbind (case identities of None \<Rightarrow> get_finite_identities e | Some ids \<Rightarrow> ok ids) (\<lambda>ids.
            rbind (get_terms_and_factors e) (\<lambda>r.
              rbind (mapM (\<lambda>fs. rbind (mapM (\<lambda>f. domain_expansion f subspaces (Some ids)) fs) mul_all)
                          (snd r))
                add_all)))"

declare domain_expansion.simps [code]

text \<open>The matrices the code multiplies for an operator at subspace \<open>s\<close>.\<close>

definition padded :: "string list \<Rightarrow> (string \<Rightarrow> nat) \<Rightarrow> string \<Rightarrow> mat \<Rightarrow> mat list" where
  "padded subs D s M = map (\<lambda>s'. if s' = s then M else eye (D s')) subs"

text \<open>
  The hypotheses of the expansion theorems: every operator's matrix is square of its
  subspace's dimension \<open>D\<close>, the listed subspaces are all touched by an operator of the
  expression (so the default identities hold them), and, for the size theorem, every
  term has an operator or a boson, hence a matrix.
\<close>

fun op_fits :: "(string \<Rightarrow> nat) \<Rightarrow> expr \<Rightarrow> bool" where
  "op_fits D (FinOp _ s n M) = (n = D s \<and> is_sq n M)"
| "op_fits D _ = True"

fun op_subspace :: "expr \<Rightarrow> string list" where
  "op_subspace (FinOp _ s _ _) = [s]"
| "op_subspace _ = []"

fun has_matrix :: "expr \<Rightarrow> bool" where
  "has_matrix (FinOp _ _ _ _) = True"
| "has_matrix (Boson _ _ _) = True"
| "has_matrix _ = False"

fun leaf_ids :: "expr \<Rightarrow> (string, mat) dict" where
  "leaf_ids (FinOp _ s n _) = [(s, eye n)]"
| "leaf_ids _ = []"

definition expansion_fits :: "(string \<Rightarrow> nat) \<Rightarrow> string list \<Rightarrow> expr \<Rightarrow> bool" where
  "expansion_fits D subs e \<longleftrightarrow>
     classifiable e \<and> \<not> is_leaf e \<and> subs \<noteq> [] \<and>
     list_all (op_fits D) (concat (snd (decompose e))) \<and>
     set subs \<subseteq> set (concat (map op_subspace (concat (snd (decompose e)))))"

definition expansion_ready :: "(string \<Rightarrow> nat) \<Rightarrow> string list \<Rightarrow> expr \<Rightarrow> bool" where
  "expansion_ready D subs e \<longleftrightarrow>
     expansion_fits D subs e \<and> list_all (list_ex has_matrix) (snd (decompose e))"

section \<open>Lemmas\<close>

lemma lookup_id_Some: "map_of ids s = Some m \<Longrightarrow> lookup_id ids s = ok m"
  by (simp add: lookup_id_def)

lemma lookup_id_None: "map_of ids s = None \<Longrightarrow> lookup_id ids s = throw KeyError"
  by (simp add: lookup_id_def)

lemma domain_expansion_FinOp:
  "domain_expansion (FinOp nm s n M) subs identities =
     rbind (case identities of None \<Rightarrow> get_finite_identities (FinOp nm s n M) | Some ids \<Rightarrow> ok ids) (\<lambda>ids.
       rbind (mapM (\<lambda>s'. if s' \<noteq> s then lookup_id ids s' else ok M) subs) (\<lambda>ms.
         rbind (kron_list ms) (\<lambda>K. ok [([], Some K)])))"
  by (subst domain_expansion.simps) simp

lemma get_finite_identities_FinOp [simp]:
  "get_finite_identities (FinOp nm s n M) = ok [(s, eye n)]"
  by (subst get_finite_identities.simps) simp

lemma is_sq_padded:
  "is_sq (D s) M \<Longrightarrow> list_all2 is_sq (map D subs) (padded subs D s M)"
  by (auto simp: padded_def list_all2_conv_all_nth)

lemma mapM_throw_first:
  "(\<And>x. x \<in> set xs \<Longrightarrow> f x = ok (g x) \<or> f x = throw e) \<Longrightarrow> \<exists>x \<in> set xs. f x = throw e \<Longrightarrow>
   mapM f xs = throw e"
proof (induction xs)
  case Nil
  then show ?case by simp
next
  case (Cons x xs)
  show ?case
  proof (cases "f x = throw e")
    case True
    then show ?thesis by simp
  next
    case False
    with Cons.prems(1) [of x] have "f x = ok (g x)" by auto
    moreover from False Cons.prems(2) have "\<exists>x \<in> set xs. f x = throw e" by auto
    ultimately show ?thesis using Cons.IH Cons.prems(1) by simp
  qed
qed

lemma get_finite_identities_leaf:
  "is_leaf f \<Longrightarrow> get_finite_identities f = ok (leaf_ids f)"
  by (subst get_finite_identities.simps) (cases f; simp)

lemma dict_update_single [simp]: "map_of (dict_update ids [(s, m)]) = (map_of ids)(s \<mapsto> m)"
  by (simp add: dict_update_def update_conv')

lemma dict_update_Nil [simp]: "dict_update ids [] = ids"
  by (simp add: dict_update_def)

lemma map_of_foldl_ids:
  "list_all (op_fits D) fs \<Longrightarrow>
   map_of (foldl (\<lambda>ids f. dict_update ids (leaf_ids f)) ids0 fs) s =
     (if s \<in> set (concat (map op_subspace fs)) then Some (eye (D s)) else map_of ids0 s)"
proof (induction fs arbitrary: ids0)
  case Nil
  then show ?case by simp
next
  case (Cons f fs)
  then show ?case by (cases f) auto
qed

lemma get_finite_identities_eq:
  assumes "classifiable e" and "\<not> is_leaf e"
  shows "get_finite_identities e =
           ok (foldl (\<lambda>ids f. dict_update ids (leaf_ids f)) [] (concat (snd (decompose e))))"
proof -
  from assms(1) have nc: "decomposes e" and l: "list_all is_leaf (concat (snd (decompose e)))"
    by (simp_all add: classifiable_def list_all_iff)
  have f: "foldM (\<lambda>ids f. rbind (get_finite_identities f) (\<lambda>d. ok (dict_update ids d))) []
              (concat (snd (decompose e))) =
           ok (foldl (\<lambda>ids f. dict_update ids (leaf_ids f)) [] (concat (snd (decompose e))))"
    using l by (intro foldM_ok) (auto simp: list_all_iff get_finite_identities_leaf)
  have "get_finite_identities e = rbind (get_terms_and_factors e) (\<lambda>r.
              foldM (\<lambda>ids f. rbind (get_finite_identities f) (\<lambda>d. ok (dict_update ids d)))
                [] (concat (snd r)))"
    using assms(2) by (subst get_finite_identities.simps) (cases e; simp)
  also have "\<dots> = ok (foldl (\<lambda>ids f. dict_update ids (leaf_ids f)) [] (concat (snd (decompose e))))"
    by (simp only: gtf_decomposes [OF nc] rbind_ok f)
  finally show ?thesis .
qed

definition sq_val :: "nat \<Rightarrow> tval \<Rightarrow> bool" where
  "sq_val N t \<longleftrightarrow> (case snd t of None \<Rightarrow> True | Some K \<Rightarrow> is_sq N K)"

lemma expand_leaf:
  assumes "is_leaf f" "op_fits D f" "subs \<noteq> []"
    and ids: "\<forall>s \<in> set subs. map_of ids s = Some (eye (D s))"
  shows "\<exists>t. domain_expansion f subs (Some ids) = ok [t] \<and> sq_val (prod_list (map D subs)) t \<and>
             (snd t \<noteq> None \<longleftrightarrow> has_matrix f)"
proof (cases f)
  case (FinOp nm s n M)
  have m: "mapM (\<lambda>s'. if s' \<noteq> s then lookup_id ids s' else ok M) subs = ok (padded subs D s M)"
    unfolding padded_def using ids by (intro mapM_ok) (auto simp: lookup_id_Some)
  have "padded subs D s M \<noteq> []" using assms(3) by (simp add: padded_def)
  moreover have "is_sq (D s) M" using assms(2) FinOp by auto
  ultimately obtain K where "kron_list (padded subs D s M) = ok K" "is_sq (prod_list (map D subs)) K"
    using kron_list_is_sq [OF is_sq_padded [of D s M subs]] by blast
  then show ?thesis by (simp add: FinOp domain_expansion_FinOp m sq_val_def)
next
  case (Boson nm m k)
  have ms: "mapM (lookup_id ids) subs = ok (map (\<lambda>s. eye (D s)) subs)"
    using ids by (intro mapM_ok) (simp add: lookup_id_Some)
  have "list_all2 is_sq (map D subs) (map (\<lambda>s. eye (D s)) subs)"
    by (auto simp: list_all2_conv_all_nth)
  moreover have "map (\<lambda>s. eye (D s)) subs \<noteq> []" using assms(3) by simp
  ultimately obtain K where "kron_list (map (\<lambda>s. eye (D s)) subs) = ok K" "is_sq (prod_list (map D subs)) K"
    using kron_list_is_sq by blast
  then show ?thesis
    by (subst domain_expansion.simps) (simp add: Boson ms sq_val_def)
qed (use assms(1) in \<open>(subst domain_expansion.simps; simp add: sq_val_def)+\<close>)

lemma tmul_sq:
  assumes "sq_val N x" "sq_val N y"
  shows "\<exists>z. tmul x y = ok z \<and> sq_val N z \<and> (snd z \<noteq> None \<longleftrightarrow> snd x \<noteq> None \<or> snd y \<noteq> None)"
proof (cases "snd x")
  case None
  then show ?thesis using assms(2) by (simp add: tmul_def sq_val_def)
next
  case (Some A)
  show ?thesis
  proof (cases "snd y")
    case None
    with Some assms(1) show ?thesis by (simp add: tmul_def sq_val_def)
  next
    case (Some B)
    with \<open>snd x = Some A\<close> assms have "is_sq N A" "is_sq N B" by (simp_all add: sq_val_def)
    then have "ncols A = length B" "is_sq N (mat_mul A B)"
      by (simp_all add: ncols_is_sq is_sq_mat_mul) (simp add: is_sq_def)
    with Some \<open>snd x = Some A\<close> show ?thesis by (simp add: tmul_def sq_val_def)
  qed
qed

lemma mul_singletons:
  "sq_val N acc \<Longrightarrow> list_all (\<lambda>y. \<exists>t. y = [t] \<and> sq_val N t) ys \<Longrightarrow>
   \<exists>z. foldM vmul [acc] ys = ok [z] \<and> sq_val N z \<and>
       (snd z \<noteq> None \<longleftrightarrow> snd acc \<noteq> None \<or> (\<exists>y \<in> set ys. \<exists>t. y = [t] \<and> snd t \<noteq> None))"
proof (induction ys arbitrary: acc)
  case Nil
  then show ?case by simp
next
  case (Cons y ys)
  then obtain t where y: "y = [t]" "sq_val N t" by auto
  from tmul_sq [OF Cons.prems(1) y(2)] obtain z where
    z: "tmul acc t = ok z" "sq_val N z" "snd z \<noteq> None \<longleftrightarrow> snd acc \<noteq> None \<or> snd t \<noteq> None"
    by blast
  have v: "vmul [acc] y = ok [z]" by (simp add: vmul_def y z)
  from Cons.prems(2) have "list_all (\<lambda>y. \<exists>t. y = [t] \<and> sq_val N t) ys" by simp
  from Cons.IH [OF z(2) this] obtain w where
    w: "foldM vmul [z] ys = ok [w]" "sq_val N w"
    "snd w \<noteq> None \<longleftrightarrow> snd z \<noteq> None \<or> (\<exists>y \<in> set ys. \<exists>t. y = [t] \<and> snd t \<noteq> None)"
    by blast
  show ?case
  proof (intro exI conjI)
    show "foldM vmul [acc] (y # ys) = ok [w]" using v w(1) by simp
    show "sq_val N w" by (rule w(2))
    show "snd w \<noteq> None \<longleftrightarrow>
          snd acc \<noteq> None \<or> (\<exists>y' \<in> set (y # ys). \<exists>t. y' = [t] \<and> snd t \<noteq> None)"
      using w(3) z(3) by (cases t) (auto simp: y(1))
  qed
qed

lemma add_all_shape:
  assumes "\<forall>t \<in> set (concat vs). \<forall>K. snd t = Some K \<longrightarrow> shape K = sh"
  shows "add_all vs = ok (concat vs)"
proof (cases "filter (\<lambda>t. snd t \<noteq> None) (concat vs)")
  case Nil
  then show ?thesis by (simp add: add_all_def Let_def)
next
  case (Cons m ms)
  have "\<forall>t \<in> set (filter (\<lambda>t. snd t \<noteq> None) (concat vs)). map_option shape (snd t) = Some sh"
    using assms by auto
  then have "\<forall>t \<in> set (m # ms). map_option shape (snd t) = Some sh" by (simp only: Cons)
  then have "list_all (\<lambda>t. map_option shape (snd t) = map_option shape (snd (hd (m # ms)))) (m # ms)"
    unfolding list_all_iff list.sel by (metis list.set_intros(1))
  then show ?thesis unfolding add_all_def Let_def Cons by simp
qed

lemma add_all_square:
  "list_all (\<lambda>y. \<exists>t K. y = [t] \<and> snd t = Some K \<and> is_sq N K) ys \<Longrightarrow> add_all ys = ok (concat ys)"
  by (rule add_all_shape [where sh = "(N, N)"])
    (fastforce simp: list_all_iff shape_def ncols_is_sq is_sq_def)

lemma add_all_sq_val:
  "list_all (sq_val N) (concat vs) \<Longrightarrow> add_all vs = ok (concat vs)"
  by (rule add_all_shape [where sh = "(N, N)"])
    (auto simp: list_all_iff sq_val_def shape_def ncols_is_sq is_sq_def split: option.splits)

lemma list_all2_concat_singletons:
  "list_all2 (\<lambda>x v. \<exists>t. v = [t] \<and> P x t) xs vs \<Longrightarrow> list_all2 P xs (concat vs)"
  by (induction xs vs rule: list_all2_induct) auto

lemma domain_expansion_generic:
  "\<not> is_leaf e \<Longrightarrow> domain_expansion e subs identities =
     rbind (case identities of None \<Rightarrow> get_finite_identities e | Some ids \<Rightarrow> ok ids) (\<lambda>ids.
       rbind (get_terms_and_factors e) (\<lambda>r.
         rbind (mapM (\<lambda>fs. rbind (mapM (\<lambda>f. domain_expansion f subs (Some ids)) fs) mul_all) (snd r))
           add_all))"
  by (subst domain_expansion.simps) (cases e; simp)

lemma list_all2_set1:
  "list_all2 Q xs ys \<Longrightarrow> x \<in> set xs \<Longrightarrow> \<exists>y \<in> set ys. Q x y"
  by (induction xs arbitrary: ys) (auto simp: list_all2_Cons1)

lemma list_all2_set2:
  "list_all2 Q xs ys \<Longrightarrow> y \<in> set ys \<Longrightarrow> \<exists>x \<in> set xs. Q x y"
  by (induction ys arbitrary: xs) (auto simp: list_all2_Cons2)

lemma list_all2_all_snd:
  "list_all2 Q xs ys \<Longrightarrow> (\<And>x y. Q x y \<Longrightarrow> P y) \<Longrightarrow> list_all P ys"
  unfolding list_all_iff by (meson list_all2_set2)

lemma length_concat_singletons:
  "list_all (\<lambda>y. \<exists>t. y = [t]) ys \<Longrightarrow> length (concat ys) = length ys"
  by (induction ys) auto

text \<open>One term of a compound expression: the product of its expanded factors.\<close>

lemma expand_term:
  assumes "list_all is_leaf fs" "list_all (op_fits D) fs" "subs \<noteq> []"
    and ids: "\<forall>s \<in> set subs. map_of ids s = Some (eye (D s))"
  shows "\<exists>t. rbind (mapM (\<lambda>f. domain_expansion f subs (Some ids)) fs) mul_all = ok [t] \<and>
             sq_val (prod_list (map D subs)) t \<and> (snd t \<noteq> None \<longleftrightarrow> list_ex has_matrix fs)"
proof -
  let ?N = "prod_list (map D subs)"
  let ?Q = "\<lambda>f y. \<exists>t. y = [t] \<and> sq_val ?N t \<and> (snd t \<noteq> None \<longleftrightarrow> has_matrix f)"
  obtain ys where ys: "mapM (\<lambda>f. domain_expansion f subs (Some ids)) fs = ok ys" "list_all2 ?Q fs ys"
  proof (rule mapM_ok_exists [of fs "\<lambda>f. domain_expansion f subs (Some ids)" ?Q, THEN exE])
    fix f assume "f \<in> set fs"
    with assms(1,2) have "is_leaf f" "op_fits D f" by (simp_all add: list_all_iff)
    from expand_leaf [OF this assms(3) ids]
    show "\<exists>y. domain_expansion f subs (Some ids) = ok y \<and> ?Q f y" by blast
  qed blast
  have all: "list_all (\<lambda>y. \<exists>t. y = [t] \<and> sq_val ?N t) ys"
    by (rule list_all2_all_snd [OF ys(2)]) blast
  have ex: "(\<exists>y \<in> set ys. \<exists>t. y = [t] \<and> snd t \<noteq> None) \<longleftrightarrow> list_ex has_matrix fs"
  proof
    assume "\<exists>y \<in> set ys. \<exists>t. y = [t] \<and> snd t \<noteq> None"
    then obtain y t where y: "y \<in> set ys" "y = [t]" "snd t \<noteq> None" by blast
    from list_all2_set2 [OF ys(2) y(1)] y(2,3) show "list_ex has_matrix fs"
      by (auto simp: list_ex_iff)
  next
    assume "list_ex has_matrix fs"
    then obtain f where f: "f \<in> set fs" "has_matrix f" by (auto simp: list_ex_iff)
    from list_all2_set1 [OF ys(2) f(1)] f(2)
    show "\<exists>y \<in> set ys. \<exists>t. y = [t] \<and> snd t \<noteq> None" by blast
  qed
  have "sq_val ?N ([], None)" by (simp add: sq_val_def)
  from mul_singletons [OF this all] obtain z where
    z: "foldM vmul [([], None)] ys = ok [z]" "sq_val ?N z"
       "snd z \<noteq> None \<longleftrightarrow> snd ([] :: expr list, None :: mat option) \<noteq> None \<or>
          (\<exists>y \<in> set ys. \<exists>t. y = [t] \<and> snd t \<noteq> None)"
    by blast
  from z(3) ex have "snd z \<noteq> None \<longleftrightarrow> list_ex has_matrix fs" by simp
  with z(1,2) ys(1) show ?thesis by (simp add: mul_all_def)
qed

text \<open>
  A compound expression with fitting operators expands, under the default identities
  that \<open>get_finite_identities\<close> collects, which hold the identity of each listed
  subspace, to the sum \<open>add_all\<close> of its terms' products.
\<close>

lemma expansion_ids:
  assumes "expansion_fits D subs e"
  shows "\<exists>ids. (\<forall>s \<in> set subs. map_of ids s = Some (eye (D s))) \<and>
           domain_expansion e subs None =
             rbind (mapM (\<lambda>fs. rbind (mapM (\<lambda>f. domain_expansion f subs (Some ids)) fs) mul_all)
                         (snd (decompose e))) add_all"
proof -
  let ?fss = "snd (decompose e)"
  let ?ids = "foldl (\<lambda>ids f. dict_update ids (leaf_ids f)) [] (concat ?fss)"
  from assms have cl: "classifiable e" and nl: "\<not> is_leaf e"
    and fits: "list_all (op_fits D) (concat ?fss)"
    and sub: "set subs \<subseteq> set (concat (map op_subspace (concat ?fss)))"
    by (simp_all add: expansion_fits_def)
  from cl have nc: "decomposes e" by (simp add: classifiable_def)
  have ids: "\<forall>s \<in> set subs. map_of ?ids s = Some (eye (D s))"
  proof
    fix s assume "s \<in> set subs"
    with sub have "s \<in> set (concat (map op_subspace (concat ?fss)))" by blast
    then show "map_of ?ids s = Some (eye (D s))"
      by (simp only: map_of_foldl_ids [OF fits] if_True)
  qed
  have "domain_expansion e subs None =
          rbind (mapM (\<lambda>fs. rbind (mapM (\<lambda>f. domain_expansion f subs (Some ?ids)) fs) mul_all) ?fss)
            add_all"
    by (simp add: domain_expansion_generic [OF nl] get_finite_identities_eq [OF cl nl]
          gtf_decomposes [OF nc])
  with ids show ?thesis by blast
qed

text \<open>
  Each term's product is one value, which carries a square matrix of the full size
  exactly when the term has an operator or a boson.
\<close>

lemma expansion_terms:
  assumes "expansion_fits D subs e"
  shows "\<exists>vs. domain_expansion e subs None = add_all vs \<and>
           list_all2 (\<lambda>fs v. \<exists>t. v = [t] \<and> sq_val (prod_list (map D subs)) t \<and>
                                 (snd t \<noteq> None \<longleftrightarrow> list_ex has_matrix fs))
             (snd (decompose e)) vs"
proof -
  let ?N = "prod_list (map D subs)"
  let ?fss = "snd (decompose e)"
  let ?Q = "\<lambda>fs v. \<exists>t. v = [t] \<and> sq_val ?N t \<and> (snd t \<noteq> None \<longleftrightarrow> list_ex has_matrix fs)"
  from expansion_ids [OF assms] obtain ids where ids: "\<forall>s \<in> set subs. map_of ids s = Some (eye (D s))"
    and de: "domain_expansion e subs None =
               rbind (mapM (\<lambda>fs. rbind (mapM (\<lambda>f. domain_expansion f subs (Some ids)) fs) mul_all) ?fss)
                 add_all"
    by blast
  from assms have ne: "subs \<noteq> []" and fits: "list_all (op_fits D) (concat ?fss)"
    and lv: "list_all (list_all is_leaf) ?fss"
    by (simp_all add: expansion_fits_def classifiable_def)
  obtain vs where vs: "mapM (\<lambda>fs. rbind (mapM (\<lambda>f. domain_expansion f subs (Some ids)) fs) mul_all) ?fss = ok vs"
    "list_all2 ?Q ?fss vs"
  proof (rule mapM_ok_exists [THEN exE])
    fix fs assume fs: "fs \<in> set ?fss"
    from fs lv fits have "list_all is_leaf fs" "list_all (op_fits D) fs"
      by (auto simp: list_all_iff)
    from expand_term [OF this ne ids]
    show "\<exists>v. rbind (mapM (\<lambda>f. domain_expansion f subs (Some ids)) fs) mul_all = ok v \<and> ?Q fs v"
      by blast
  qed blast
  from de vs show ?thesis by auto
qed

section \<open>Expanding one operator\<close>

lemma expand_operator:
  assumes "subs \<noteq> []" and "is_sq (D s) M"
    and "\<forall>s' \<in> set subs. s' \<noteq> s \<longrightarrow> map_of ids s' = Some (eye (D s'))"
  shows "\<exists>K. domain_expansion (FinOp nm s n M) subs (Some ids) = ok [([], Some K)] \<and>
             kron_list (padded subs D s M) = ok K \<and> is_sq (prod_list (map D subs)) K"
proof -
  have m: "mapM (\<lambda>s'. if s' \<noteq> s then lookup_id ids s' else ok M) subs = ok (padded subs D s M)"
    unfolding padded_def using assms(3) by (intro mapM_ok) (auto simp: lookup_id_Some)
  have "padded subs D s M \<noteq> []" using assms(1) by (simp add: padded_def)
  then obtain K where K: "kron_list (padded subs D s M) = ok K" "is_sq (prod_list (map D subs)) K"
    using kron_list_is_sq [OF is_sq_padded [of D s M subs, OF assms(2)]] by blast
  then show ?thesis by (simp add: domain_expansion_FinOp m)
qed

text \<open>
  C11: given identities for every other listed subspace (of the dimensions \<open>D\<close>), an
  operator whose square matrix has its subspace's dimension expands to the Kronecker
  product, in the order of the list, of its matrix at its own subspace and the identity
  at each other one; the result is square of size the product of the listed dimensions
  (spec sections 4.3 and 8, Scenario A).
\<close>

theorem domain_expansion_operator:
  assumes "subs \<noteq> []" and "is_sq (D s) M"
    and "\<forall>s' \<in> set subs. s' \<noteq> s \<longrightarrow> map_of ids s' = Some (eye (D s'))"
  shows "\<exists>K. domain_expansion (FinOp nm s n M) subs (Some ids) = ok [([], Some K)] \<and>
             kron_list (padded subs D s M) = ok K \<and> is_sq (prod_list (map D subs)) K"
  using assms by (rule expand_operator)

text \<open>
  C12: with the default identities, which hold only the operator's own subspace, the
  expansion of a lone operator raises \<open>KeyError\<close> as soon as the list names another
  subspace: \<open>domain_expansion(opA, [X, Y])\<close> of the spec's Scenario A fails.
\<close>

theorem domain_expansion_default_KeyError:
  assumes "\<exists>s' \<in> set subs. s' \<noteq> s"
  shows "domain_expansion (FinOp nm s n M) subs None = throw KeyError"
proof -
  have "mapM (\<lambda>s'. if s' \<noteq> s then lookup_id [(s, eye n)] s' else ok M) subs = throw KeyError"
    using assms by (intro mapM_throw_first [where g = "\<lambda>_. M"]) (auto simp: lookup_id_def)
  then show ?thesis by (simp add: domain_expansion_FinOp)
qed

section \<open>Expanding a compound expression\<close>

text \<open>
  C13: with the default identities, an expression whose terms are products of leaves,
  whose operators fit their subspaces' dimensions \<open>D\<close>, whose every listed subspace is
  touched by one of its operators and whose every term has an operator or a boson,
  expands without error into one matrix term per term of its decomposition, each square
  of size the product of the listed dimensions (spec section 4.3: the result is a
  matrix on the full product space).
\<close>

theorem domain_expansion_size:
  assumes "expansion_ready D subs e"
  shows "\<exists>ts. domain_expansion e subs None = ok ts \<and> length ts = length (snd (decompose e)) \<and>
              list_all (\<lambda>t. \<exists>K. snd t = Some K \<and> is_sq (prod_list (map D subs)) K) ts"
proof -
  let ?N = "prod_list (map D subs)"
  let ?P = "\<lambda>v. \<exists>t K. v = [t] \<and> snd t = Some K \<and> is_sq ?N K"
  from assms have fit: "expansion_fits D subs e"
    and hm: "list_all (list_ex has_matrix) (snd (decompose e))"
    by (simp_all add: expansion_ready_def)
  from expansion_terms [OF fit] obtain vs where vs: "domain_expansion e subs None = add_all vs"
    "list_all2 (\<lambda>fs v. \<exists>t. v = [t] \<and> sq_val ?N t \<and> (snd t \<noteq> None \<longleftrightarrow> list_ex has_matrix fs))
       (snd (decompose e)) vs"
    by blast
  have "list_all2 (\<lambda>fs v. ?P v) (snd (decompose e)) vs"
    using vs(2) hm by (auto simp: list_all2_conv_all_nth list_all_iff sq_val_def split: option.splits)
  then have P: "list_all ?P vs" by (rule list_all2_all_snd) blast
  then have "add_all vs = ok (concat vs)" by (rule add_all_square)
  moreover have "list_all (\<lambda>y. \<exists>t. y = [t]) vs" using P by (auto simp: list_all_iff)
  then have "length (concat vs) = length (snd (decompose e))"
    using list_all2_lengthD [OF vs(2)] by (simp add: length_concat_singletons)
  moreover have "list_all (\<lambda>t. \<exists>K. snd t = Some K \<and> is_sq ?N K) (concat vs)"
    using P by (auto simp: list_all_iff)
  ultimately show ?thesis using vs(1) by auto
qed

text \<open>
  C14: a compound expression whose operators fit their subspaces expands, under the
  default identities, without error into one value per term of its decomposition; a
  term with an operator or a boson carries a square matrix of the full size, and a term
  without one stays a scalar. So \<open>g*opA + x\<close> becomes the sum of a matrix and the scalar
  \<open>x\<close>, although the spec promises a matrix-valued expression on the full space.
\<close>

theorem domain_expansion_terms:
  assumes "expansion_fits D subs e"
  shows "\<exists>ts. domain_expansion e subs None = ok ts \<and>
              list_all2 (\<lambda>fs t. (\<forall>K. snd t = Some K \<longrightarrow> is_sq (prod_list (map D subs)) K) \<and>
                                (snd t = None \<longleftrightarrow> \<not> list_ex has_matrix fs))
                (snd (decompose e)) ts"
proof -
  let ?N = "prod_list (map D subs)"
  let ?P = "\<lambda>fs t. sq_val ?N t \<and> (snd t \<noteq> None \<longleftrightarrow> list_ex has_matrix fs)"
  from expansion_terms [OF assms] obtain vs where vs: "domain_expansion e subs None = add_all vs"
    "list_all2 (\<lambda>fs v. \<exists>t. v = [t] \<and> ?P fs t) (snd (decompose e)) vs"
    by blast
  from list_all2_concat_singletons [OF vs(2)] have P: "list_all2 ?P (snd (decompose e)) (concat vs)" .
  then have "list_all (sq_val ?N) (concat vs)" by (rule list_all2_all_snd) blast
  then have "domain_expansion e subs None = ok (concat vs)" by (simp add: vs(1) add_all_sq_val)
  moreover have "list_all2 (\<lambda>fs t. (\<forall>K. snd t = Some K \<longrightarrow> is_sq ?N K) \<and>
                                   (snd t = None \<longleftrightarrow> \<not> list_ex has_matrix fs)) (snd (decompose e)) (concat vs)"
    using P by (rule list_all2_mono) (auto simp: sq_val_def)
  ultimately show ?thesis by blast
qed

section \<open>Witnesses\<close>

text \<open>Scenario A: \<open>opA\<close> on X with \<open>[[0,1],[1,0]]\<close>, \<open>opB\<close> on Y with the identity.\<close>

theorem domain_expansion_operator_witness:
  "domain_expansion (FinOp ''opA'' ''X'' 2 [[0, 1], [1, 0]]) [''X'', ''Y''] (Some [(''X'', eye 2), (''Y'', eye 2)])
     = ok [([], Some (kron [[0, 1], [1, 0]] (eye 2)))] \<and>
   domain_expansion (FinOp ''opB'' ''Y'' 2 (eye 2)) [''X'', ''Y''] (Some [(''X'', eye 2), (''Y'', eye 2)])
     = ok [([], Some (kron (eye 2) (eye 2)))] \<and>
   is_sq 4 (kron [[0, 1], [1, 0]] (eye 2))"
proof -
  let ?D = "\<lambda>_ :: string. 2 :: nat"
  have a: "is_sq (?D ''X'') [[0, 1], [1, 0]]" by (simp add: is_sq_def)
  have b: "is_sq (?D ''Y'') (eye 2)" by simp
  have ids: "\<forall>s' \<in> set [''X'', ''Y'']. s' \<noteq> ''X'' \<longrightarrow>
               map_of [(''X'', eye 2), (''Y'', eye 2)] s' = Some (eye (?D s'))"
    "\<forall>s' \<in> set [''X'', ''Y'']. s' \<noteq> ''Y'' \<longrightarrow>
               map_of [(''X'', eye 2), (''Y'', eye 2)] s' = Some (eye (?D s'))"
    by simp_all
  have ne: "[''X'', ''Y''] \<noteq> []" by simp
  show ?thesis
    using domain_expansion_operator [OF ne a ids(1), of "''opA''" 2]
      domain_expansion_operator [OF ne b ids(2), of "''opB''" 2]
    by (auto simp: padded_def kron_list_def)
qed

theorem domain_expansion_default_KeyError_witness:
  "domain_expansion (FinOp ''opA'' ''X'' 2 [[0, 1], [1, 0]]) [''X'', ''Y''] None = throw KeyError"
proof -
  have "\<exists>s' \<in> set [''X'', ''Y'']. s' \<noteq> ''X''" by simp
  then show ?thesis by (rule domain_expansion_default_KeyError)
qed

text \<open>
  Scenario A as one expression: \<open>g * opA + opB\<close> on \<open>[X, Y]\<close>, both of dimension 2,
  expands with the default identities into two 4 by 4 matrix terms.
\<close>

theorem domain_expansion_size_witness:
  "\<exists>ts. domain_expansion (Sum [Prod [Sym ''g'' 1, FinOp ''opA'' ''X'' 2 [[0, 1], [1, 0]]],
                               FinOp ''opB'' ''Y'' 2 (eye 2)]) [''X'', ''Y''] None = ok ts \<and>
        length ts = 2 \<and> list_all (\<lambda>t. \<exists>K. snd t = Some K \<and> is_sq 4 K) ts"
proof -
  let ?e = "Sum [Prod [Sym ''g'' 1, FinOp ''opA'' ''X'' 2 [[0, 1], [1, 0]]], FinOp ''opB'' ''Y'' 2 (eye 2)]"
  have r: "expansion_ready (\<lambda>_. 2) [''X'', ''Y''] ?e"
    by (simp add: expansion_ready_def expansion_fits_def classifiable_def decomposes_def
          decompose_def has_comm_atom_def distrib_def is_sq_def eye_def)
  have l: "length (snd (decompose ?e)) = 2" by (simp add: decompose_def distrib_def)
  from domain_expansion_size [OF r] l show ?thesis by simp
qed

text \<open>\<open>g*opA + x\<close> on \<open>[X]\<close>: a matrix term and a scalar term.\<close>

theorem domain_expansion_terms_witness:
  "expansion_fits (\<lambda>_. 2) [''X''] (Sum [Prod [Sym ''g'' 1, FinOp ''opA'' ''X'' 2 [[0, 1], [1, 0]]], Sym ''x'' 0]) \<and>
   (\<exists>ts. domain_expansion (Sum [Prod [Sym ''g'' 1, FinOp ''opA'' ''X'' 2 [[0, 1], [1, 0]]], Sym ''x'' 0])
           [''X''] None = ok ts \<and>
         length ts = 2 \<and> snd (ts ! 0) \<noteq> None \<and> snd (ts ! 1) = None)"
proof -
  let ?e = "Sum [Prod [Sym ''g'' 1, FinOp ''opA'' ''X'' 2 [[0, 1], [1, 0]]], Sym ''x'' 0]"
  have f: "expansion_fits (\<lambda>_. 2) [''X''] ?e"
    by (simp add: expansion_fits_def classifiable_def decomposes_def decompose_def
          has_comm_atom_def distrib_def is_sq_def)
  have d: "snd (decompose ?e) = [[Sym ''g'' 1, FinOp ''opA'' ''X'' 2 [[0, 1], [1, 0]]], [Sym ''x'' 0]]"
    by (simp add: decompose_def distrib_def)
  from domain_expansion_terms [OF f] f show ?thesis
    unfolding d by (auto simp: list_all2_Cons1)
qed

end
