(* ===== verification/Matrix.thy ===== *)
theory Matrix
  imports Domain
begin

text \<open>
  \<open>get_matrix\<close> of \<open>src/Modules/sympy/utils.py\<close> (lines 275--295): the matrix of an
  expression without bosons. A number or symbol is itself (a scalar), an operator its
  matrix, and any other expression is decomposed, each term's factors are multiplied
  into \<open>mat_res = 1\<close> from left to right, and the terms are added. The values are those of
  \<open>Domain\<close> (a sum of terms, each scalar factors and an optional matrix), with the
  errors of sympy's products and sums. The \<open>print\<close> calls are output only and are not
  modelled. A boson has no overload of its own: the generic one decomposes it into
  itself and calls \<open>get_matrix\<close> on it again.
\<close>

partial_function (option) get_matrix :: "expr \<Rightarrow> tval list res" where
  "get_matrix e =
     (case e of
        Num _ \<Rightarrow> ok [([e], None)]
      | Sym _ _ \<Rightarrow> ok [([e], None)]
      | FinOp _ _ _ M \<Rightarrow> ok [([], Some M)]
      | _ \<Rightarrow> rbind (get_terms_and_factors e) (\<lambda>r.
              rbind (mapM (foldM (\<lambda>mat_res f. rbind (get_matrix f) (vmul mat_res)) [([], None)])
                          (snd r))
                add_all))"

declare get_matrix.simps [code]

section \<open>A type system for matrix expressions\<close>

text \<open>
  An expression denotes a scalar or a square matrix of a size \<open>n\<close>. A product combines
  the types of its factors (scalars are neutral, matrices must agree in size), a sum needs
  one type for all its summands, a power with a positive exponent has its base's type and
  any other power is a scalar. Bosons and commutators have no type: \<open>get_matrix\<close> is
  not meant for them. \<open>ty_of\<close> is the (executable) type checker.
\<close>

datatype ety = Scalar | Square nat

fun mul_ty :: "ety option \<Rightarrow> ety option \<Rightarrow> ety option" where
  "mul_ty (Some Scalar) u = u"
| "mul_ty (Some (Square n)) (Some Scalar) = Some (Square n)"
| "mul_ty (Some (Square n)) (Some (Square m)) = (if n = m then Some (Square n) else None)"
| "mul_ty _ _ = None"

definition prod_ty :: "ety option list \<Rightarrow> ety option" where
  "prod_ty ts = foldr mul_ty ts (Some Scalar)"

fun sum_ty :: "ety option list \<Rightarrow> ety option" where
  "sum_ty [] = Some Scalar"
| "sum_ty (t # ts) = (if list_all (\<lambda>u. u = t) ts then t else None)"

fun ty_of :: "expr \<Rightarrow> ety option" where
  "ty_of (Num _) = Some Scalar"
| "ty_of (Sym _ _) = Some Scalar"
| "ty_of (FinOp _ _ _ M) = (if is_sq (length M) M then Some (Square (length M)) else None)"
| "ty_of (Boson _ _ _) = None"
| "ty_of (Sum es) = sum_ty (map ty_of es)"
| "ty_of (Prod es) = prod_ty (map ty_of es)"
| "ty_of (Power b k) = (if k \<le> 0 then Some Scalar else ty_of b)"
| "ty_of (Comm _ _) = None"

text \<open>A value has a type: no matrix for a scalar, a square matrix of the size otherwise.\<close>

fun has_ty :: "ety \<Rightarrow> tval \<Rightarrow> bool" where
  "has_ty Scalar v = (snd v = None)"
| "has_ty (Square n) v = (case snd v of None \<Rightarrow> False | Some K \<Rightarrow> is_sq n K)"

text \<open>The type of an atom of the expansion: the product of the types of its factors.\<close>

definition atom_ty :: "expr \<Rightarrow> ety option" where
  "atom_ty a = prod_ty (map ty_of (atom_factors a))"

section \<open>Lemmas on types\<close>

lemma mul_ty_unit_right [simp]: "mul_ty u (Some Scalar) = u"
  by (cases u; cases "the u") auto

lemma mul_ty_None_right [simp]: "mul_ty u None = None"
  by (cases u; cases "the u") auto

lemma mul_ty_assoc: "mul_ty (mul_ty a b) c = mul_ty a (mul_ty b c)"
  by (cases a; cases "the a"; cases b; cases "the b"; cases c; cases "the c") auto

lemma mul_ty_idem: "t \<noteq> None \<Longrightarrow> mul_ty t t = t"
  by (cases t; cases "the t") auto

lemma prod_ty_Nil [simp]: "prod_ty [] = Some Scalar"
  by (simp add: prod_ty_def)

lemma prod_ty_Cons [simp]: "prod_ty (t # ts) = mul_ty t (prod_ty ts)"
  by (simp add: prod_ty_def)

lemma prod_ty_append: "prod_ty (xs @ ys) = mul_ty (prod_ty xs) (prod_ty ys)"
  by (induction xs) (simp_all add: mul_ty_assoc)

lemma prod_ty_concat: "prod_ty (concat xss) = prod_ty (map prod_ty xss)"
  by (induction xss) (simp_all add: prod_ty_append)

lemma prod_ty_replicate: "t \<noteq> None \<Longrightarrow> 0 < n \<Longrightarrow> prod_ty (replicate n t) = t"
proof (induction n)
  case (Suc n)
  then show ?case by (cases n) (simp_all add: mul_ty_idem)
qed simp

lemma prod_ty_None: "None \<in> set ts \<Longrightarrow> prod_ty ts = None"
  by (induction ts) auto

lemma prod_ty_foldl: "foldl mul_ty a ts = mul_ty a (prod_ty ts)"
  by (induction ts arbitrary: a) (simp_all add: mul_ty_assoc)

lemma sum_ty_Some: "sum_ty ts = Some t \<Longrightarrow> u \<in> set ts \<Longrightarrow> u = Some t"
  by (cases ts) (auto simp: list_all_iff split: if_splits)

lemma prod_ty_list_all2:
  "list_all2 (\<lambda>x t. prod_ty (f x) = t) xs ts \<Longrightarrow> prod_ty (map prod_ty (map f xs)) = prod_ty ts"
  by (induction rule: list_all2_induct) simp_all

text \<open>Where a term of a product expansion comes from: one term of each factor.\<close>

lemma distrib_mem:
  "fs \<in> set (distrib tss) \<Longrightarrow> \<exists>gs. list_all2 (\<lambda>g ts. g \<in> set ts) gs tss \<and> fs = concat gs"
proof (induction tss arbitrary: fs)
  case Nil
  then show ?case by (simp add: distrib_def)
next
  case (Cons ts tss)
  then obtain f g where "f \<in> set ts" "g \<in> set (distrib tss)" "fs = f @ g"
    by (auto simp: distrib_def)
  with Cons.IH [of g] show ?case by (metis concat.simps(2) list_all2_Cons)
qed

lemma atom_ty_eq: "(\<And>es. a \<noteq> Sum es) \<Longrightarrow> (\<And>es. a \<noteq> Prod es) \<Longrightarrow> atom_ty a = ty_of a"
proof (cases a)
  case (Power b k)
  show ?thesis
  proof (cases "k \<le> 0")
    case False
    then have n: "0 < nat k" by simp
    show ?thesis
    proof (cases "ty_of b")
      case None
      with n Power False show ?thesis by (simp add: atom_ty_def prod_ty_None)
    next
      case (Some u)
      with n Power False show ?thesis by (simp add: atom_ty_def prod_ty_replicate)
    qed
  qed (simp add: atom_ty_def Power)
qed (simp_all add: atom_ty_def)

lemma factors_ty: "prod_ty (map ty_of (concat (map atom_factors fs))) = prod_ty (map atom_ty fs)"
  unfolding atom_ty_def [abs_def] by (simp add: prod_ty_concat map_concat comp_def)

lemma list_all2_prod_ty:
  "list_all2 (\<lambda>g x. prod_ty (map atom_ty g) = ty_of x) gs es \<Longrightarrow>
   prod_ty (map (\<lambda>g. prod_ty (map atom_ty g)) gs) = prod_ty (map ty_of es)"
  by (induction rule: list_all2_induct) simp_all

lemma distrib_elem:
  "fs \<in> set (distrib tss) \<Longrightarrow> a \<in> set fs \<Longrightarrow> \<exists>ts \<in> set tss. \<exists>g \<in> set ts. a \<in> set g"
proof (induction tss arbitrary: fs)
  case (Cons ts tss)
  from Cons.prems(1) obtain f g where fg: "f \<in> set ts" "g \<in> set (distrib tss)" "fs = f @ g"
    by (auto simp: distrib_def)
  show ?case
  proof (cases "a \<in> set f")
    case True
    with fg(1) show ?thesis by auto
  next
    case False
    with fg(3) Cons.prems(2) have "a \<in> set g" by simp
    with Cons.IH [OF fg(2)] show ?thesis by auto
  qed
qed (simp add: distrib_def)

text \<open>Every term of the expansion of an expression of type \<open>t\<close> has factors of product type \<open>t\<close>.\<close>

lemma expand_ty:
  "ty_of e = Some t \<Longrightarrow> fs \<in> set (expand_terms e) \<Longrightarrow> prod_ty (map atom_ty fs) = Some t"
proof (induction e arbitrary: t fs rule: expand_terms.induct)
  case (1 es)
  then obtain x where x: "x \<in> set es" "fs \<in> set (expand_terms x)" by auto
  from sum_ty_Some [of "map ty_of es" t "ty_of x"] "1.prems"(1) x(1) have "ty_of x = Some t" by simp
  with "1.IH" x show ?case by blast
next
  case (2 es)
  from "2.prems"(2) obtain gs where gs: "list_all2 (\<lambda>g ts. g \<in> set ts) gs (map expand_terms es)"
    "fs = concat gs" by (auto dest: distrib_mem)
  have "list_all2 (\<lambda>g x. prod_ty (map atom_ty g) = ty_of x) gs es"
  proof (rule list_all2_all_nthI)
    show "length gs = length es" using list_all2_lengthD [OF gs(1)] by simp
  next
    fix i assume i: "i < length gs"
    with gs(1) have l: "length gs = length es" "gs ! i \<in> set (expand_terms (es ! i))"
      by (auto simp: list_all2_conv_all_nth)
    have "es ! i \<in> set es" using i l(1) by simp
    then have mem: "ty_of (es ! i) \<in> set (map ty_of es)" by simp
    have "ty_of (es ! i) \<noteq> None"
    proof
      assume "ty_of (es ! i) = None"
      with mem have "None \<in> set (map ty_of es)" by simp
      then have "prod_ty (map ty_of es) = None" by (rule prod_ty_None)
      with "2.prems"(1) show False by simp
    qed
    then obtain u where "ty_of (es ! i) = Some u" by blast
    with "2.IH" [of "es ! i" u "gs ! i"] i l show "prod_ty (map atom_ty (gs ! i)) = ty_of (es ! i)"
      by simp
  qed
  then have "prod_ty (map (\<lambda>g. prod_ty (map atom_ty g)) gs) = Some t"
    using "2.prems"(1) by (simp add: list_all2_prod_ty)
  then show ?case by (simp add: gs(2) map_concat prod_ty_concat comp_def)
next
  case (3 es n)
  show ?case
  proof (cases "2 \<le> n")
    case True
    let ?C = "concat (map expand_terms es)"
    from True "3.prems" obtain gs where
      gs: "list_all2 (\<lambda>g ts. g \<in> set ts) gs (replicate (nat n) ?C)" "fs = concat gs"
      by (auto dest: distrib_mem)
    from True "3.prems"(1) have st: "sum_ty (map ty_of es) = Some t" by simp
    have "\<forall>g \<in> set gs. prod_ty (map atom_ty g) = Some t"
    proof
      fix g assume "g \<in> set gs"
      then obtain i where i: "i < length gs" "g = gs ! i" by (auto simp: in_set_conv_nth)
      have "gs ! i \<in> set (replicate (nat n) ?C ! i)"
        using gs(1) i(1) unfolding list_all2_conv_all_nth by blast
      moreover have "i < nat n" using i(1) list_all2_lengthD [OF gs(1)] by simp
      ultimately have "g \<in> set ?C" using i(2) by (simp del: set_concat)
      then obtain x where x: "x \<in> set es" "g \<in> set (expand_terms x)" by auto
      from sum_ty_Some [OF st, of "ty_of x"] x(1) have "ty_of x = Some t" by simp
      with "3.IH" True x show "prod_ty (map atom_ty g) = Some t" by blast
    qed
    moreover have "length gs = nat n" using list_all2_lengthD [OF gs(1)] by simp
    ultimately have "map (\<lambda>g. prod_ty (map atom_ty g)) gs = replicate (nat n) (Some t)"
      by (simp add: map_replicate_const list_eq_iff_nth_eq)
    with True show ?thesis by (simp add: gs(2) map_concat prod_ty_concat comp_def prod_ty_replicate)
  next
    case False
    with "3.prems" show ?thesis by (simp add: atom_ty_eq)
  qed
qed (simp_all add: atom_ty_eq)

lemma size_in_list: "x \<in> set xs \<Longrightarrow> size x < Suc (size_list size xs)"
  by (induction xs) auto

lemma atom_factors_size: "f \<in> set (atom_factors a) \<Longrightarrow> size f \<le> size a"
  by (cases a rule: atom_factors.cases) auto

lemma expand_size: "fs \<in> set (expand_terms e) \<Longrightarrow> a \<in> set fs \<Longrightarrow> size a \<le> size e"
proof (induction e arbitrary: fs rule: expand_terms.induct)
  case (1 es)
  then obtain x where "x \<in> set es" "fs \<in> set (expand_terms x)" by auto
  with "1.IH" "1.prems"(2) size_in_list [of x es] show ?case by fastforce
next
  case (2 es)
  from "2.prems"(1) have "fs \<in> set (distrib (map expand_terms es))" by simp
  from distrib_elem [OF this "2.prems"(2)] obtain x g where "x \<in> set es" "g \<in> set (expand_terms x)" "a \<in> set g"
    by auto
  with "2.IH" size_in_list [of x es] show ?case by fastforce
next
  case (3 es n)
  show ?case
  proof (cases "2 \<le> n")
    case True
    with "3.prems"(1) have "fs \<in> set (distrib (replicate (nat n) (concat (map expand_terms es))))" by simp
    from distrib_elem [OF this "3.prems"(2)] obtain x g where
      "x \<in> set es" "g \<in> set (expand_terms x)" "a \<in> set g"
      by auto
    with "3.IH" True size_in_list [of x es] show ?thesis by fastforce
  next
    case False
    with "3.prems" show ?thesis by simp
  qed
qed auto

text \<open>The factors of a compound expression are smaller than it.\<close>

lemma factor_smaller:
  assumes "\<not> is_leaf e" "ty_of e \<noteq> None" "F \<in> set (snd (decompose e))" "f \<in> set F"
  shows "size f < size e"
proof (cases e)
  case (Sum es)
  with assms(3,4) obtain fs a x where "x \<in> set es" "fs \<in> set (expand_terms x)" "a \<in> set fs"
    "f \<in> set (atom_factors a)"
    by (auto simp: decompose_def)
  with Sum show ?thesis
    using expand_size atom_factors_size size_in_list [of x es] by fastforce
next
  case (Prod es)
  with assms(3,4) obtain fs a where fs: "fs \<in> set (distrib (map expand_terms es))" "a \<in> set fs"
    "f \<in> set (atom_factors a)"
    by (auto simp: decompose_def)
  from distrib_elem [OF fs(1,2)] obtain x g where "x \<in> set es" "g \<in> set (expand_terms x)" "a \<in> set g"
    by auto
  then have "size a < size (Prod es)" using expand_size size_in_list [of x es] by fastforce
  with Prod fs(3) atom_factors_size show ?thesis by fastforce
next
  case (Power b k)
  with assms(3,4) show ?thesis by (simp add: decompose_def)
qed (use assms in auto)

text \<open>A compound expression of type \<open>t\<close> decomposes into terms of factors of type \<open>t\<close>.\<close>

lemma decompose_ty:
  assumes "ty_of e = Some t" "\<not> is_leaf e"
  shows "decomposes e \<and> list_all (\<lambda>F. prod_ty (map ty_of F) = Some t) (snd (decompose e))"
proof (cases "is_power e")
  case True
  then obtain b k where e: "e = Power b k" by (cases e) auto
  show ?thesis
  proof (cases "k \<le> 0")
    case True
    with assms e show ?thesis by (simp add: decomposes_def decompose_def)
  next
    case False
    with assms e show ?thesis by (simp add: decomposes_def decompose_def prod_ty_replicate)
  qed
next
  case False
  have ft: "prod_ty (map atom_ty fs) = Some t" if "fs \<in> set (expand_terms e)" for fs
    using expand_ty [OF assms(1) that] .
  have "\<not> has_comm_atom e"
  proof
    assume "has_comm_atom e"
    then obtain fs a where fs: "fs \<in> set (expand_terms e)" "a \<in> set fs" "is_comm a"
      by (auto simp: has_comm_atom_iff)
    then have "atom_ty a = None" by (cases a) (simp_all add: atom_ty_def)
    with fs(2) have "None \<in> set (map atom_ty fs)" by (metis image_eqI set_map)
    then have "prod_ty (map atom_ty fs) = None" by (rule prod_ty_None)
    with ft [OF fs(1)] show False by simp
  qed
  moreover have "list_all (\<lambda>F. prod_ty (map ty_of F) = Some t) (snd (decompose e))"
    using ft False assms(2) by (simp add: decompose_generic list_all_iff factors_ty)
  ultimately show ?thesis by (simp add: decomposes_def)
qed

section \<open>Values of a type\<close>

lemma tmul_ty:
  assumes "has_ty t1 x" "has_ty t2 y" "mul_ty (Some t1) (Some t2) = Some t"
  shows "\<exists>z. tmul x y = ok z \<and> has_ty t z"
proof (cases t1)
  case Scalar
  with assms show ?thesis by (cases t2) (auto simp: tmul_def split: option.splits)
next
  case (Square n)
  show ?thesis
  proof (cases t2)
    case Scalar
    with Square assms show ?thesis by (auto simp: tmul_def split: option.splits)
  next
    case (Square m)
    from assms(1) \<open>t1 = Square n\<close> obtain A where A: "snd x = Some A" "is_sq n A"
      by (cases "snd x") auto
    from assms(2) Square obtain B where B: "snd y = Some B" "is_sq m B"
      by (cases "snd y") auto
    from assms(3) \<open>t1 = Square n\<close> Square have mn: "m = n" "t = Square n"
      by (simp_all split: if_splits)
    have "ncols A = length B" using A(2) B(2) mn(1) by (simp add: ncols_is_sq is_sq_def)
    with A B mn show ?thesis by (simp add: tmul_def is_sq_mat_mul)
  qed
qed

lemma vmul_ty:
  assumes "list_all (has_ty t1) xs" "list_all (has_ty t2) ys" "mul_ty (Some t1) (Some t2) = Some t"
  shows "\<exists>zs. vmul xs ys = ok zs \<and> list_all (has_ty t) zs"
proof -
  have "\<exists>zs. mapM (\<lambda>p. tmul (fst p) (snd p)) (List.product xs ys) = ok zs \<and>
             list_all2 (\<lambda>p z. has_ty t z) (List.product xs ys) zs"
  proof (rule mapM_ok_exists)
    fix p assume "p \<in> set (List.product xs ys)"
    with assms(1,2) have "has_ty t1 (fst p)" "has_ty t2 (snd p)" by (auto simp: list_all_iff)
    from tmul_ty [OF this assms(3)] show "\<exists>z. tmul (fst p) (snd p) = ok z \<and> has_ty t z" .
  qed
  then obtain zs where "vmul xs ys = ok zs" "list_all2 (\<lambda>p z. has_ty t z) (List.product xs ys) zs"
    by (auto simp: vmul_def)
  moreover from this(2) have "list_all (has_ty t) zs"
    by (rule list_all2_all_snd)
  ultimately show ?thesis by blast
qed

lemma add_all_ty: "list_all (has_ty t) (concat vs) \<Longrightarrow> add_all vs = ok (concat vs)"
proof (cases t)
  case Scalar
  moreover assume "list_all (has_ty t) (concat vs)"
  ultimately show ?thesis by (intro add_all_shape [where sh = "(0, 0)"]) (auto simp: list_all_iff)
next
  case (Square n)
  moreover assume "list_all (has_ty t) (concat vs)"
  ultimately show ?thesis
    by (intro add_all_shape [where sh = "(n, n)"])
      (fastforce simp: list_all_iff shape_def ncols_is_sq is_sq_def split: option.splits)
qed

lemma get_matrix_generic:
  "\<not> is_leaf e \<Longrightarrow>
   get_matrix e = rbind (get_terms_and_factors e) (\<lambda>r.
     rbind (mapM (foldM (\<lambda>mat_res f. rbind (get_matrix f) (vmul mat_res)) [([], None)]) (snd r)) add_all)"
  by (subst get_matrix.simps) (cases e; simp)

text \<open>One term: the loop \<open>mat_res *= get_matrix(factor)\<close> over factors whose values are typed.\<close>

lemma term_value_ty:
  assumes "\<And>f u. f \<in> set F \<Longrightarrow> ty_of f = Some u \<Longrightarrow>
             \<exists>vs. get_matrix f = ok vs \<and> list_all (has_ty u) vs"
    and "list_all (has_ty t0) acc" "mul_ty (Some t0) (prod_ty (map ty_of F)) = Some t"
  shows "\<exists>vs. foldM (\<lambda>mat_res f. rbind (get_matrix f) (vmul mat_res)) acc F = ok vs \<and>
             list_all (has_ty t) vs"
  using assms
proof (induction F arbitrary: acc t0)
  case Nil
  then show ?case by simp
next
  case (Cons f F)
  from Cons.prems(3) obtain u where u: "ty_of f = Some u"
    by (cases "ty_of f") (simp_all add: mul_ty_assoc)
  from Cons.prems(3) u obtain t1 where t1: "mul_ty (Some t0) (Some u) = Some t1"
    "mul_ty (Some t1) (prod_ty (map ty_of F)) = Some t"
    by (cases "mul_ty (Some t0) (Some u)") (simp_all add: mul_ty_assoc [symmetric])
  from Cons.prems(1) [of f u] u obtain vs where vs: "get_matrix f = ok vs" "list_all (has_ty u) vs"
    by auto
  from vmul_ty [OF Cons.prems(2) vs(2) t1(1)] obtain ws where
    ws: "vmul acc vs = ok ws" "list_all (has_ty t1) ws" by blast
  from Cons.IH [OF _ ws(2) t1(2)] Cons.prems(1) obtain zs where
    "foldM (\<lambda>mat_res f. rbind (get_matrix f) (vmul mat_res)) ws F = ok zs" "list_all (has_ty t) zs"
    by auto
  with vs(1) ws(1) show ?case by simp
qed

lemma get_matrix_Some_not_boson:
  assumes "get_matrix x = Some r"
  shows "\<not> is_boson x"
  apply (rule get_matrix.raw_induct [where P = "\<lambda>x r. \<not> is_boson x", OF _ assms])
  subgoal premises prems for gm x r
  proof
    assume "is_boson x"
    then obtain nm m k where x: "x = Boson nm m k" by (cases x) auto
    have g: "get_terms_and_factors x = ok ([x], [[x]])"
      using x by (simp add: gtf_leaf_or_power decompose_def)
    show False
    proof (cases "gm x")
      case None
      with prems(2) g x show False by simp
    next
      case (Some r')
      with prems(1) [of x r'] x show False by simp
    qed
  qed
  done

section \<open>Type soundness of get_matrix\<close>

text \<open>
  C28: an expression the type checker accepts (no boson, no commutator, every matrix
  square, matrices of one size wherever they are multiplied or added) is evaluated by
  \<open>get_matrix\<close> without error and without endless recursion, and every term of the
  result has the expression's type: a scalar, or a square matrix of the size.
\<close>

theorem get_matrix_type_sound:
  assumes "ty_of e = Some t"
  shows "\<exists>vs. get_matrix e = ok vs \<and> list_all (has_ty t) vs"
  using assms
proof (induction "size e" arbitrary: e t rule: less_induct)
  case less
  show ?case
  proof (cases "is_leaf e")
    case True
    with less.prems show ?thesis
      by (cases e) (auto simp: get_matrix.simps split: if_splits)
  next
    case False
    from decompose_ty [OF less.prems False]
    have dc: "decomposes e" and ft: "list_all (\<lambda>F. prod_ty (map ty_of F) = Some t) (snd (decompose e))"
      by simp_all
    have "\<exists>vss. mapM (foldM (\<lambda>mat_res f. rbind (get_matrix f) (vmul mat_res)) [([], None)])
                      (snd (decompose e)) = ok vss \<and>
                list_all2 (\<lambda>F vs. list_all (has_ty t) vs) (snd (decompose e)) vss"
    proof (rule mapM_ok_exists)
      fix F assume F: "F \<in> set (snd (decompose e))"
      have ih: "\<exists>vs. get_matrix f = ok vs \<and> list_all (has_ty u) vs"
        if "f \<in> set F" "ty_of f = Some u" for f u
        using less.hyps [OF factor_smaller [OF False _ F that(1)] that(2)] less.prems by simp
      have "list_all (has_ty Scalar) [([], None)]" by simp
      moreover have "mul_ty (Some Scalar) (prod_ty (map ty_of F)) = Some t"
        using ft F by (simp add: list_all_iff)
      ultimately show "\<exists>vs. foldM (\<lambda>mat_res f. rbind (get_matrix f) (vmul mat_res)) [([], None)] F = ok vs \<and>
                             list_all (has_ty t) vs"
        using term_value_ty [of F, OF ih] by blast
    qed
    then obtain vss where vss:
      "mapM (foldM (\<lambda>mat_res f. rbind (get_matrix f) (vmul mat_res)) [([], None)]) (snd (decompose e)) = ok vss"
      "list_all2 (\<lambda>F vs. list_all (has_ty t) vs) (snd (decompose e)) vss"
      by blast
    have "list_all (list_all (has_ty t)) vss" by (rule list_all2_all_snd [OF vss(2)])
    then have "list_all (has_ty t) (concat vss)" by (simp add: list_all_iff)
    with vss(1) show ?thesis
      by (simp add: get_matrix_generic [OF False] gtf_decomposes [OF dc] add_all_ty)
  qed
qed

text \<open>
  C29: on a boson \<open>get_matrix\<close> never returns: the generic overload decomposes the boson
  into itself and calls \<open>get_matrix\<close> on it again (CPython's \<open>RecursionError\<close>), as the
  docstring's "Only use expr without infinite operators" warns.
\<close>

theorem get_matrix_boson_diverges: "get_matrix (Boson nm m k) = None"
  using get_matrix_Some_not_boson by (cases "get_matrix (Boson nm m k)") fastforce+

text \<open>
  C30: a product of two operators whose square matrices have different sizes raises
  \<open>ShapeError\<close> (the spec's dimension mismatch).
\<close>

theorem get_matrix_dimension_mismatch:
  assumes "is_sq n A" and "is_sq m B" and "n \<noteq> m"
  shows "get_matrix (Prod [FinOp a s n' A, FinOp b s' m' B]) = throw ShapeError"
proof -
  let ?e = "Prod [FinOp a s n' A, FinOp b s' m' B]"
  have "decomposes ?e" "decompose ?e = ([?e], [[FinOp a s n' A, FinOp b s' m' B]])"
    by (simp_all add: decomposes_def decompose_def has_comm_atom_def distrib_def)
  moreover have "ncols A \<noteq> length B"
    using ncols_is_sq [OF assms(1)] assms(2,3) by (simp add: is_sq_def)
  ultimately show ?thesis
    by (simp add: get_matrix_generic gtf_decomposes get_matrix.simps vmul_def tmul_def)
qed

section \<open>Witnesses\<close>

text \<open>\<open>g*sx + sz*sz\<close>: a 2 by 2 matrix expression.\<close>

theorem get_matrix_type_sound_witness:
  "\<exists>vs. get_matrix (Sum [Prod [Sym ''g'' 1, FinOp ''sx'' ''spin'' 2 [[0, 1], [1, 0]]],
                         Prod [FinOp ''sz'' ''spin'' 2 [[1, 0], [0, -1]], FinOp ''sz'' ''spin'' 2 [[1, 0], [0, -1]]]])
          = ok vs \<and> list_all (has_ty (Square 2)) vs"
proof -
  have "ty_of (Sum [Prod [Sym ''g'' 1, FinOp ''sx'' ''spin'' 2 [[0, 1], [1, 0]]],
                    Prod [FinOp ''sz'' ''spin'' 2 [[1, 0], [0, -1]], FinOp ''sz'' ''spin'' 2 [[1, 0], [0, -1]]]])
          = Some (Square 2)"
    by (simp add: is_sq_def)
  then show ?thesis by (rule get_matrix_type_sound)
qed

theorem get_matrix_dimension_mismatch_witness:
  "get_matrix (Prod [FinOp ''sx'' ''spin'' 2 [[0, 1], [1, 0]], FinOp ''I3'' ''orbit'' 3 (eye 3)]) = throw ShapeError"
  by (rule get_matrix_dimension_mismatch [where n = 2 and m = 3]) (simp_all add: is_sq_def eye_def)

end
