(* ===== verification/Kron.thy ===== *)
theory Kron
  imports Prelude
begin

text \<open>
  The algebra of the integer matrices of \<open>Prelude\<close> that the commutation rules rely on:
  entries of products and Kronecker products, the identity as a neutral element, and the
  mixed-product law \<open>(A \<otimes> B)(C \<otimes> D) = AC \<otimes> BD\<close>, also for the Kronecker product of
  a list (sympy's \<open>kronecker_product(*ms)\<close>, \<open>kron_list\<close>).
\<close>

lemma nth_concat_uniform:
  "\<forall>xs \<in> set xss. length xs = q \<Longrightarrow> i < length xss * q \<Longrightarrow> concat xss ! i = xss ! (i div q) ! (i mod q)"
proof (induction xss arbitrary: i)
  case Nil
  then show ?case by simp
next
  case (Cons xs xss)
  show ?case
  proof (cases "i < q")
    case True
    with Cons.prems show ?thesis by (simp add: nth_append)
  next
    case False
    have q: "0 < q" using Cons.prems by (cases q) auto
    from False have "i - q < length xss * q" using Cons.prems by auto
    then have "concat xss ! (i - q) = xss ! ((i - q) div q) ! ((i - q) mod q)"
      using Cons by simp
    moreover have "(i - q) div q = i div q - 1" "(i - q) mod q = i mod q"
      using False q by (simp_all add: le_div_geq le_mod_geq)
    moreover have "i div q \<noteq> 0" using False q by (simp add: div_greater_zero_iff)
    ultimately show ?thesis using Cons.prems False
      by (simp add: nth_append nth_Cons')
  qed
qed

lemma kron_nth:
  assumes "is_sq p A" "is_sq q B" "i < p * q" "j < p * q"
  shows "kron A B ! i ! j = A ! (i div q) ! (j div q) * B ! (i mod q) ! (j mod q)"
proof -
  have q: "0 < q" using assms(3) by (cases q) auto
  have id: "i div q < p" "j div q < p" "i mod q < q" "j mod q < q"
    using assms(3,4) q by (simp_all add: less_mult_imp_div_less)
  have "kron A B ! i = map (\<lambda>rb. concat (map (\<lambda>a. map (\<lambda>b. a * b) rb) (A ! (i div q)))) B ! (i mod q)"
    unfolding kron_def using assms(1,2,3) id q
    by (subst nth_concat_uniform) (auto simp: is_sq_def)
  then have rows: "kron A B ! i = concat (map (\<lambda>a. map (\<lambda>b. a * b) (B ! (i mod q))) (A ! (i div q)))"
    using id(3) assms(2) by (simp add: is_sq_def)
  have lb: "length (B ! (i mod q)) = q" "length (A ! (i div q)) = p"
    using assms(1,2) id by (auto simp: is_sq_def)
  have "concat (map (\<lambda>a. map (\<lambda>b. a * b) (B ! (i mod q))) (A ! (i div q))) ! j =
          A ! (i div q) ! (j div q) * B ! (i mod q) ! (j mod q)"
    using assms(4) id lb by (subst nth_concat_uniform) auto
  then show ?thesis by (simp only: rows)
qed

lemma mat_eqI:
  assumes "is_sq n X" "is_sq n Y" "\<And>i j. i < n \<Longrightarrow> j < n \<Longrightarrow> X ! i ! j = Y ! i ! j"
  shows "X = Y"
  using assms by (intro nth_equalityI) (auto simp: is_sq_def)

lemma mat_mul_nth:
  assumes "is_sq n X" "is_sq n Y" "i < n" "j < n"
  shows "mat_mul X Y ! i ! j = (\<Sum>t<n. X ! i ! t * Y ! t ! j)"
proof -
  have lt: "length (transpose Y) = n" using length_transpose_is_sq [OF assms(2)] assms(3) by simp
  have col: "transpose Y ! j = map (\<lambda>r. r ! j) Y"
    using assms(2,4) lt by (simp add: nth_transpose is_sq_def filter_True)
  have "mat_mul X Y ! i ! j = sum_list (map2 (*) (X ! i) (transpose Y ! j))"
    using assms(1,3) lt assms(4) by (simp add: mat_mul_def is_sq_def)
  also have "\<dots> = (\<Sum>t<n. X ! i ! t * Y ! t ! j)"
    using assms(1,2,3) by (simp add: col sum_list_sum_nth is_sq_def atLeast0LessThan)
  finally show ?thesis .
qed

lemma eye_nth: "i < n \<Longrightarrow> j < n \<Longrightarrow> eye n ! i ! j = (if i = j then 1 else 0)"
  by (simp add: eye_def)

lemma sum_delta_right: "j < (n::nat) \<Longrightarrow> (\<Sum>t<n. f t * (if t = j then 1 else 0)) = (f j :: int)"
proof -
  have "(\<Sum>t<n. f t * (if t = j then 1 else 0)) = (\<Sum>t<n. if t = j then f t else 0)"
    by (rule sum.cong) simp_all
  then show "j < n \<Longrightarrow> ?thesis" by (simp add: sum.delta)
qed

lemma sum_delta_left: "i < (n::nat) \<Longrightarrow> (\<Sum>t<n. (if i = t then 1 else 0) * f t) = (f i :: int)"
proof -
  have "(\<Sum>t<n. (if i = t then 1 else 0) * f t) = (\<Sum>t<n. if i = t then f t else 0)"
    by (rule sum.cong) simp_all
  then show "i < n \<Longrightarrow> ?thesis" by (simp add: sum.delta')
qed

lemma mat_mul_eye [simp]: "is_sq n A \<Longrightarrow> mat_mul A (eye n) = A"
  by (rule mat_eqI [of n]) (simp_all add: is_sq_mat_mul mat_mul_nth eye_nth sum_delta_right)

lemma eye_mat_mul [simp]: "is_sq n A \<Longrightarrow> mat_mul (eye n) A = A"
  by (rule mat_eqI [of n]) (simp_all add: is_sq_mat_mul mat_mul_nth [of n "eye n" A] eye_nth sum_delta_left)

lemma sum_div_mod:
  "(\<Sum>t<p * q. f t) = (\<Sum>a<p. \<Sum>b<q. f (a * q + b :: nat))"
proof (induction p)
  case 0
  then show ?case by simp
next
  case (Suc p)
  have "(\<Sum>t<Suc p * q. f t) = (\<Sum>t<p * q. f t) + (\<Sum>t\<in>{p * q..<p * q + q}. f t)"
    by (simp add: lessThan_atLeast0 sum.atLeastLessThan_concat add.commute)
  also have "(\<Sum>t\<in>{p * q..<p * q + q}. f t) = (\<Sum>b<q. f (p * q + b))"
    by (simp add: sum.shift_bounds_nat_ivl [of f "0" "p * q" q, simplified] lessThan_atLeast0 add.commute)
  finally show ?case using Suc by simp
qed

lemma kron_mixed:
  assumes A: "is_sq p A" and C: "is_sq p C" and B: "is_sq q B" and D: "is_sq q D"
  shows "mat_mul (kron A B) (kron C D) = kron (mat_mul A C) (mat_mul B D)"
proof (rule mat_eqI [of "p * q"])
  show "is_sq (p * q) (mat_mul (kron A B) (kron C D))"
    using assms by (simp add: is_sq_kron is_sq_mat_mul)
  show "is_sq (p * q) (kron (mat_mul A C) (mat_mul B D))"
    using assms by (simp add: is_sq_kron is_sq_mat_mul)
next
  fix i j assume i: "i < p * q" and j: "j < p * q"
  then have q: "0 < q" by (cases q) auto
  have id: "i div q < p" "j div q < p" "i mod q < q" "j mod q < q"
    using i j q by (simp_all add: less_mult_imp_div_less)
  have ab: "a * q + b < p * q" if "a < p" "b < q" for a b
  proof -
    have "a * q + b < a * q + q" using that(2) by simp
    also have "\<dots> = Suc a * q" by simp
    also have "\<dots> \<le> p * q" using that(1) by (intro mult_le_mono1) simp
    finally show ?thesis .
  qed
  have dm: "(a * q + b) div q = a" "(a * q + b) mod q = b" if "b < q" for a b
    using that q by simp_all
  have "mat_mul (kron A B) (kron C D) ! i ! j =
          (\<Sum>t<p * q. kron A B ! i ! t * kron C D ! t ! j)"
    using assms i j by (simp add: mat_mul_nth is_sq_kron)
  also have "\<dots> = (\<Sum>a<p. \<Sum>b<q. (A ! (i div q) ! a * B ! (i mod q) ! b) *
                                  (C ! a ! (j div q) * D ! b ! (j mod q)))"
    by (simp add: sum_div_mod kron_nth [OF A B i] kron_nth [OF C D _ j] ab dm)
  also have "\<dots> = (\<Sum>a<p. A ! (i div q) ! a * C ! a ! (j div q)) *
                  (\<Sum>b<q. B ! (i mod q) ! b * D ! b ! (j mod q))"
    by (simp add: sum_product ac_simps)
  also have "\<dots> = kron (mat_mul A C) (mat_mul B D) ! i ! j"
    using assms i j id by (simp add: kron_nth [of p _ q] is_sq_mat_mul mat_mul_nth)
  finally show "mat_mul (kron A B) (kron C D) ! i ! j = kron (mat_mul A C) (mat_mul B D) ! i ! j" .
qed

lemma mat_mul_foldl_kron:
  "is_sq n A0 \<Longrightarrow> is_sq n B0 \<Longrightarrow> list_all2 is_sq ns As \<Longrightarrow> list_all2 is_sq ns Bs \<Longrightarrow>
   mat_mul (foldl kron A0 As) (foldl kron B0 Bs) = foldl kron (mat_mul A0 B0) (map2 mat_mul As Bs)"
proof (induction As arbitrary: A0 B0 n ns Bs)
  case Nil
  then show ?case by simp
next
  case (Cons A As)
  from Cons.prems(3) obtain m ms where ns: "ns = m # ms" "is_sq m A" "list_all2 is_sq ms As"
    by (auto simp: list_all2_Cons2)
  from Cons.prems(4) ns(1) obtain B Bs' where Bs: "Bs = B # Bs'" "is_sq m B" "list_all2 is_sq ms Bs'"
    by (auto simp: list_all2_Cons1)
  have "mat_mul (foldl kron (kron A0 A) As) (foldl kron (kron B0 B) Bs') =
          foldl kron (mat_mul (kron A0 A) (kron B0 B)) (map2 mat_mul As Bs')"
    using Cons.IH [of "n * m" "kron A0 A" "kron B0 B" ms Bs'] Cons.prems(1,2) ns Bs
    by (simp add: is_sq_kron)
  then show ?case
    using kron_mixed [OF Cons.prems(1,2) ns(2) Bs(2)] by (simp add: Bs(1))
qed

lemma mat_mul_kron_list:
  assumes "list_all2 is_sq ns As" "list_all2 is_sq ns Bs"
    and "kron_list As = ok KA" "kron_list Bs = ok KB"
  shows "kron_list (map2 mat_mul As Bs) = ok (mat_mul KA KB)"
proof (cases As)
  case Nil
  then show ?thesis using assms(3) by (simp add: kron_list_def)
next
  case (Cons A As')
  with assms(1) obtain m ms where ns: "ns = m # ms" "is_sq m A" "list_all2 is_sq ms As'"
    by (auto simp: list_all2_Cons2)
  from assms(2) ns(1) obtain B Bs' where Bs: "Bs = B # Bs'" "is_sq m B" "list_all2 is_sq ms Bs'"
    by (auto simp: list_all2_Cons1)
  show ?thesis
    using assms(3,4) Cons Bs mat_mul_foldl_kron [OF ns(2) Bs(2) ns(3) Bs(3)]
    by (simp add: kron_list_def)
qed

lemma kron_eye: "kron (eye m) (eye n) = eye (m * n)"
proof (rule mat_eqI [of "m * n"])
  fix i j assume i: "i < m * n" and j: "j < m * n"
  then have n: "0 < n" by (cases n) auto
  then show "kron (eye m) (eye n) ! i ! j = eye (m * n) ! i ! j"
    using i j n by (simp add: kron_nth [of m _ n] eye_nth less_mult_imp_div_less) (metis div_mult_mod_eq)
qed (simp_all add: is_sq_kron)

lemma kron_list_eyes:
  "ns \<noteq> [] \<Longrightarrow> kron_list (map eye ns) = ok (eye (prod_list ns))"
proof -
  have "foldl kron (eye a) (map eye ms) = eye (a * prod_list ms)" for a ms
    by (induction ms arbitrary: a) (simp_all add: kron_eye mult.assoc)
  then show "ns \<noteq> [] \<Longrightarrow> ?thesis" by (cases ns) (simp_all add: kron_list_def)
qed

end
