(* ===== verification/Commutator.thy ===== *)
theory Commutator
  imports Domain Kron "HOL-Library.While_Combinator"
begin

text \<open>
  The classes of \<open>src/pysw/classes.py\<close> and commutators. The classes give sympy's quantum
  \<open>Commutator.doit()\<close> its rules through the hooks \<open>_eval_commutator_<Class>\<close>:
  \<open>RDOperator\<close> (lines 42--51) and \<open>RDsymbol\<close> (75--79). sympy's own \<open>BosonOp\<close> hook
  (the ladder rule) and the dispatch of \<open>doit\<close> are library code and are modelled from
  sympy's documented behaviour. \<open>expand_commutator\<close> of
  \<open>src/Modules/sympy/utils.py\<close> (259--264) iterates the engine's
  \<open>expand(commutator=True)\<close> until nothing changes; the engine's rewrite is a parameter
  and the loop is a \<open>while_option\<close>, whose \<open>None\<close> is the loop that never ends.
\<close>

section \<open>The classes\<close>

text \<open>
  \<open>SubSpace(name, dim)\<close> (lines 8--18): a sympy \<open>Basic\<close> with two arguments, so two
  subspaces are equal when their names and dimensions are.
\<close>

record SubSpace =
  subspace_name :: string
  subspace_dimension :: nat

text \<open>
  \<open>RDOperator(name, subspace)\<close> (lines 39--40) and \<open>RDsymbol(name, order)\<close> (72--73) are
  the leaves \<open>FinOp\<close> and \<open>Sym\<close> of the expression model; the prototype's operators carry no
  matrix (its matrices enter through \<open>expand_operators\<close>), so the matrix field is empty.
\<close>

definition RDOperator :: "string \<Rightarrow> SubSpace \<Rightarrow> expr" where
  "RDOperator nm sp = FinOp nm (subspace_name sp) (subspace_dimension sp) []"

definition RDsymbol :: "string \<Rightarrow> nat \<Rightarrow> expr" where
  "RDsymbol nm order = Sym nm order"

text \<open>The property \<open>RDOperator.subspace\<close> (lines 26--28).\<close>

fun RDOperator_subspace :: "expr \<Rightarrow> SubSpace option" where
  "RDOperator_subspace (FinOp _ s d _) = Some \<lparr>subspace_name = s, subspace_dimension = d\<rparr>"
| "RDOperator_subspace _ = None"

section \<open>The hooks\<close>

text \<open>\<open>self * other - other * self\<close>: sympy's \<open>Add(Mul(A, B), Mul(-1, B, A))\<close>.\<close>

definition comm_sub :: "expr \<Rightarrow> expr \<Rightarrow> expr" where
  "comm_sub A B = Sum [Prod [A, B], Prod [Num (-1), B, A]]"

text \<open>
  A hook is selected by the class name of \<open>other\<close> (\<open>RDOperator\<close>, \<open>RDsymbol\<close>,
  \<open>BosonOp\<close>); a class without a hook, or a hook that returns \<open>None\<close>, is sympy's
  \<open>NotImplementedError\<close>, here \<open>None\<close>. The hooks of \<open>RDOperator\<close> (lines 42--51) are
  called with an \<open>RDOperator\<close> as \<open>self\<close>.
\<close>

fun RDOperator_eval_commutator :: "expr \<Rightarrow> expr \<Rightarrow> expr option" where
  "RDOperator_eval_commutator self (FinOp n' s' d' M') =
     Some (if RDOperator_subspace self \<noteq> RDOperator_subspace (FinOp n' s' d' M') then Num 0
           else comm_sub self (FinOp n' s' d' M'))"
| "RDOperator_eval_commutator self (Boson _ _ _) = Some (Num 0)"
| "RDOperator_eval_commutator self (Sym _ _) = Some (Num 0)"
| "RDOperator_eval_commutator self _ = None"

fun RDsymbol_eval_commutator :: "expr \<Rightarrow> expr \<Rightarrow> expr option" where
  "RDsymbol_eval_commutator self (FinOp _ _ _ _) = Some (Num 0)"
| "RDsymbol_eval_commutator self (Boson _ _ _) = Some (Num 0)"
| "RDsymbol_eval_commutator self _ = None"

text \<open>
  sympy's \<open>BosonOp._eval_commutator_BosonOp\<close>: \<open>[a\<^sup>\<dagger>, a] = -1\<close> for one mode (the
  \<open>name\<close> of a \<open>BosonOp\<close>, here the mode); otherwise nothing unless the hint
  \<open>independent=True\<close> is given, which no call of the repository does.
\<close>

fun BosonOp_eval_commutator :: "expr \<Rightarrow> expr \<Rightarrow> expr option" where
  "BosonOp_eval_commutator (Boson _ m k) (Boson _ m' k') =
     (if m = m' \<and> k = Creation \<and> k' = Annihilation then Some (Num (-1)) else None)"
| "BosonOp_eval_commutator _ _ = None"

text \<open>\<open>Operator._eval_commutator\<close>: the hook of the class of \<open>self\<close>.\<close>

fun eval_commutator :: "expr \<Rightarrow> expr \<Rightarrow> expr option" where
  "eval_commutator (FinOp n s d M) B = RDOperator_eval_commutator (FinOp n s d M) B"
| "eval_commutator (Sym n k) B = RDsymbol_eval_commutator (Sym n k) B"
| "eval_commutator (Boson n m k) B = BosonOp_eval_commutator (Boson n m k) B"
| "eval_commutator _ _ = None"

text \<open>
  \<open>isinstance(x, Operator)\<close>: \<open>RDOperator\<close>, \<open>RDsymbol\<close> and \<open>BosonOp\<close> are
  subclasses of sympy's \<open>Operator\<close>; numbers, sums and products are not.
\<close>

fun is_operator :: "expr \<Rightarrow> bool" where
  "is_operator (FinOp _ _ _ _) = True"
| "is_operator (Sym _ _) = True"
| "is_operator (Boson _ _ _) = True"
| "is_operator _ = False"

text \<open>\<open>-1 * c\<close>: a number absorbs the sign.\<close>

definition neg_expr :: "expr \<Rightarrow> expr" where
  "neg_expr c = (case c of Num n \<Rightarrow> Num (- n) | _ \<Rightarrow> Prod [Num (-1), c])"

text \<open>
  \<open>Commutator(A, B).doit()\<close>: for two operators the hook of \<open>A\<close>, else minus the hook
  of \<open>B\<close>, else (and for anything that is not an operator) \<open>A*B - B*A\<close>.
\<close>

definition comm_doit :: "expr \<Rightarrow> expr \<Rightarrow> expr" where
  "comm_doit A B =
     (if is_operator A \<and> is_operator B then
        (case eval_commutator A B of
           Some c \<Rightarrow> c
         | None \<Rightarrow> (case eval_commutator B A of Some c \<Rightarrow> neg_expr c | None \<Rightarrow> comm_sub A B))
      else comm_sub A B)"

section \<open>\<open>expand_commutator\<close>\<close>

text \<open>
  The state of the loop is the pair \<open>(expr, expr_expanded)\<close>; the body shifts it by one
  application of the engine's rewrite \<open>expand\<close>, and the loop runs while the two differ.
\<close>

definition expand_commutator :: "(expr \<Rightarrow> expr) \<Rightarrow> expr \<Rightarrow> expr option" where
  "expand_commutator expand e =
     map_option snd
       (while_option (\<lambda>(ex, ex_expanded). ex_expanded \<noteq> ex)
                     (\<lambda>(ex, ex_expanded). (ex_expanded, expand ex_expanded))
                     (e, expand e))"

section \<open>Lemmas\<close>

lemma expand_terms_leaf: "is_leaf x \<Longrightarrow> expand_terms x = [[x]]"
  by (cases x) simp_all

lemma decompose_leaf_pair:
  assumes "is_leaf x" "is_leaf y"
  shows "decomposes (Prod [x, y]) \<and> decompose (Prod [x, y]) = ([Prod [x, y]], [[x, y]])"
proof -
  have e: "expand_terms (Prod [x, y]) = [[x, y]]"
    using assms by (simp add: expand_terms_leaf distrib_def)
  have "\<not> is_comm x" using assms(1) by (cases x) simp_all
  moreover have "\<not> is_comm y" using assms(2) by (cases y) simp_all
  ultimately have "decomposes (Prod [x, y])" unfolding decomposes_def has_comm_atom_iff e by simp
  moreover have "atom_factors x = [x]" using assms(1) by (cases x) simp_all
  moreover have "atom_factors y = [y]" using assms(2) by (cases y) simp_all
  moreover have "decompose (Prod [x, y]) = (map term_of [[x, y]], map (\<lambda>fs. concat (map atom_factors fs)) [[x, y]])"
    using decompose_generic [of "Prod [x, y]"] unfolding e by simp
  ultimately show ?thesis by simp
qed

lemma expand_pair:
  assumes "is_leaf x" "is_leaf y"
    and "domain_expansion x subs (Some ids) = ok [tx]" "domain_expansion y subs (Some ids) = ok [ty]"
    and "tmul tx ty = ok t"
  shows "domain_expansion (Prod [x, y]) subs (Some ids) = ok [t]"
proof -
  have d: "get_terms_and_factors (Prod [x, y]) = ok ([Prod [x, y]], [[x, y]])"
    using decompose_leaf_pair [OF assms(1,2)] gtf_decomposes by simp
  have t0: "tmul ([], None) tx = ok tx" by (simp add: tmul_def split: option.splits)
  have m: "mul_all [[tx], [ty]] = ok [t]"
    by (simp add: mul_all_def vmul_def t0 assms(5))
  have a: "add_all [[t]] = ok [t]"
    by (simp add: add_all_def Let_def)
  show ?thesis
    by (simp add: domain_expansion_generic d assms(3,4) m a)
qed

lemma expand_Boson:
  assumes "subs \<noteq> []" "\<forall>s \<in> set subs. map_of ids s = Some (eye (D s))"
  shows "domain_expansion (Boson nm m k) subs (Some ids) =
           ok [([Boson nm m k], Some (eye (prod_list (map D subs))))]"
proof -
  have ms: "mapM (lookup_id ids) subs = ok (map (\<lambda>s. eye (D s)) subs)"
    using assms(2) by (intro mapM_ok) (simp add: lookup_id_Some)
  show ?thesis
    using kron_list_eyes [of "map D subs"] assms(1)
    by (subst domain_expansion.simps) (simp add: ms comp_def)
qed

lemma padded_commute:
  assumes "s \<noteq> s'" "is_sq (D s) A" "is_sq (D s') B"
  shows "map2 mat_mul (padded subs D s A) (padded subs D s' B) =
         map2 mat_mul (padded subs D s' B) (padded subs D s A)"
  unfolding padded_def zip_map1 zip_map2 zip_same_conv_map map_map
  using assms by (intro map_cong) (auto simp: is_sq_eye)

lemma operators_commute:
  assumes "s \<noteq> s'" "is_sq (D s) A" "is_sq (D s') B"
    and "kron_list (padded subs D s A) = ok KA" "kron_list (padded subs D s' B) = ok KB"
  shows "mat_mul KA KB = mat_mul KB KA"
proof -
  have "kron_list (map2 mat_mul (padded subs D s A) (padded subs D s' B)) = ok (mat_mul KA KB)"
    using is_sq_padded [of D s A subs, OF assms(2)] is_sq_padded [of D s' B subs, OF assms(3)] assms(4,5)
    by (rule mat_mul_kron_list)
  moreover have "kron_list (map2 mat_mul (padded subs D s' B) (padded subs D s A)) = ok (mat_mul KB KA)"
    using is_sq_padded [of D s' B subs, OF assms(3)] is_sq_padded [of D s A subs, OF assms(2)] assms(5,4)
    by (rule mat_mul_kron_list)
  ultimately show ?thesis using padded_commute [OF assms(1-3)] by simp
qed

lemma expand_scalar [simp]:
  "domain_expansion (Num c) subs ids = ok [([Num c], None)]"
  "domain_expansion (Sym g i) subs ids = ok [([Sym g i], None)]"
  by (subst domain_expansion.simps; simp)+

lemma tmul_swap:
  assumes "tmul x y = ok t1" "tmul y x = ok t2"
    and "\<And>A B. snd x = Some A \<Longrightarrow> snd y = Some B \<Longrightarrow> mat_mul A B = mat_mul B A"
  shows "mset (fst t1) = mset (fst t2) \<and> snd t1 = snd t2"
  using assms(1,2) assms(3) [of "the (snd x)" "the (snd y)"]
  by (auto simp: tmul_def split: option.splits if_splits)

lemma comm_doit_FinOps:
  "comm_doit (FinOp n s d A) (FinOp n' s' d' B) =
     (if (s, d) \<noteq> (s', d') then Num 0 else comm_sub (FinOp n s d A) (FinOp n' s' d' B))"
  by (simp add: comm_doit_def)

lemma comm_sub_not_Num [simp]: "comm_sub A B \<noteq> Num n"
  by (simp add: comm_sub_def)

text \<open>The matrices of two leaves that the hooks declare commuting commute.\<close>

lemma leaf_matrices_commute:
  assumes "is_leaf x" "is_leaf y" "comm_doit x y = Num 0" "op_fits D x" "op_fits D y"
    and "subs \<noteq> []" and ids: "\<forall>s \<in> set subs. map_of ids s = Some (eye (D s))"
    and "domain_expansion x subs (Some ids) = ok [tx]" "domain_expansion y subs (Some ids) = ok [ty]"
    and "snd tx = Some A" "snd ty = Some B"
  shows "mat_mul A B = mat_mul B A"
proof -
  let ?N = "prod_list (map D subs)"
  have ids': "\<forall>s' \<in> set subs. s' \<noteq> s \<longrightarrow> map_of ids s' = Some (eye (D s'))" for s
    using ids by blast
  have val: "(\<exists>nm s n M. z = FinOp nm s n M \<and> is_sq (D s) M \<and> kron_list (padded subs D s M) = ok C) \<or>
             C = eye ?N"
    if "is_leaf z" "op_fits D z" "domain_expansion z subs (Some ids) = ok [t]" "snd t = Some C" for z t C
  proof (cases z)
    case (FinOp nm s n M)
    with that(2) have "is_sq (D s) M" by auto
    with expand_operator [OF assms(6) _ ids'] obtain K where
      "domain_expansion z subs (Some ids) = ok [([], Some K)]" "kron_list (padded subs D s M) = ok K"
      using FinOp by blast
    with that(3,4) FinOp \<open>is_sq (D s) M\<close> show ?thesis by auto
  next
    case (Boson nm m k)
    with that(3,4) show ?thesis by (auto simp: expand_Boson [OF assms(6) ids])
  qed (use that in \<open>auto simp: expand_scalar\<close>)
  have sqA: "is_sq ?N A" and sqB: "is_sq ?N B"
    using expand_leaf [OF assms(1,4,6) ids] expand_leaf [OF assms(2,5,6) ids] assms(8-11)
    by (auto simp: sq_val_def)
  from val [OF assms(1,4,8,10)] val [OF assms(2,5,9,11)] show ?thesis
  proof (elim disjE exE conjE)
    fix nm s n M nm' s' n' M'
    assume x: "x = FinOp nm s n M" "is_sq (D s) M" "kron_list (padded subs D s M) = ok A"
      and y: "y = FinOp nm' s' n' M'" "is_sq (D s') M'" "kron_list (padded subs D s' M') = ok B"
    have "s \<noteq> s'"
      using assms(3,4,5) x(1) y(1) by (auto simp: comm_doit_FinOps split: if_splits)
    then show ?thesis using operators_commute x(2,3) y(2,3) by blast
  qed (simp_all add: sqA sqB)
qed

lemma expand_commutator_state:
  "((\<lambda>(ex, ex_expanded). (ex_expanded, f ex_expanded)) ^^ k) (e, f e) = ((f ^^ k) e, (f ^^ Suc k) e)"
  by (induction k) simp_all

lemma expand_commutator_unfold:
  "expand_commutator f e =
     (if \<exists>k. f ((f ^^ k) e) = (f ^^ k) e
      then Some ((f ^^ (LEAST k. f ((f ^^ k) e) = (f ^^ k) e)) e) else None)"
proof -
  have stop: "(\<not> (\<lambda>(ex, ex_expanded). ex_expanded \<noteq> ex)
                (((\<lambda>(ex, ex_expanded). (ex_expanded, f ex_expanded)) ^^ k) (e, f e))) \<longleftrightarrow>
              f ((f ^^ k) e) = (f ^^ k) e" for k
    by (simp add: expand_commutator_state)
  show ?thesis
    unfolding expand_commutator_def while_option_def stop
    by (auto simp: expand_commutator_state intro: LeastI)
qed

lemma iterate_reaches_fixpoint:
  assumes "\<forall>x. f x \<noteq> x \<longrightarrow> \<mu> (f x) < (\<mu> x :: nat)"
  shows "\<exists>k. f ((f ^^ k) e) = (f ^^ k) e"
proof (rule ccontr)
  assume "\<not> ?thesis"
  then have "\<mu> ((f ^^ k) e) + k \<le> \<mu> e" for k
  proof (induction k)
    case (Suc k)
    then have "\<mu> ((f ^^ Suc k) e) < \<mu> ((f ^^ k) e)" using assms by auto
    with Suc show ?case by simp
  qed simp
  from this [of "Suc (\<mu> e)"] show False by simp
qed

section \<open>Properties\<close>

text \<open>
  C31: the commutation rules of \<open>classes.py\<close> are sound for the matrices of the domain
  expansion. Whenever \<open>Commutator(x, y).doit()\<close> gives 0 for two leaves, the
  expansions of \<open>x*y\<close> and \<open>y*x\<close> into the full space are the same matrix times the
  same symbolic factors (up to their order): operators of different subspaces are
  Kronecker products that commute, and a boson's matrix is the identity.
\<close>

theorem comm_doit_zero_sound:
  assumes "is_leaf x" "is_leaf y" "comm_doit x y = Num 0" "op_fits D x" "op_fits D y"
    and "subs \<noteq> []" and "\<forall>s \<in> set subs. map_of ids s = Some (eye (D s))"
  shows "\<exists>txy tyx. domain_expansion (Prod [x, y]) subs (Some ids) = ok [txy] \<and>
                   domain_expansion (Prod [y, x]) subs (Some ids) = ok [tyx] \<and>
                   mset (fst txy) = mset (fst tyx) \<and> snd txy = snd tyx"
proof -
  let ?N = "prod_list (map D subs)"
  obtain tx where tx: "domain_expansion x subs (Some ids) = ok [tx]" "sq_val ?N tx"
    using expand_leaf [OF assms(1,4,6,7)] by blast
  obtain ty where ty: "domain_expansion y subs (Some ids) = ok [ty]" "sq_val ?N ty"
    using expand_leaf [OF assms(2,5,6,7)] by blast
  obtain txy where txy: "tmul tx ty = ok txy" using tmul_sq [OF tx(2) ty(2)] by blast
  obtain tyx where tyx: "tmul ty tx = ok tyx" using tmul_sq [OF ty(2) tx(2)] by blast
  have "mset (fst txy) = mset (fst tyx) \<and> snd txy = snd tyx"
    using txy tyx leaf_matrices_commute [OF assms tx(1) ty(1)] by (rule tmul_swap)
  then show ?thesis
    using expand_pair [OF assms(1,2) tx(1) ty(1) txy] expand_pair [OF assms(2,1) ty(1) tx(1) tyx]
    by blast
qed

text \<open>
  C32: a finite operator commutes with every operator that is not a finite operator of
  its own subspace (spec section 3: operators of different subspaces commute), whichever
  side it is on: where the other class has no hook, \<open>doit\<close> negates the operator's.
\<close>

theorem comm_doit_finite_commutes:
  assumes "is_operator y" and "case y of FinOp _ s' d' _ \<Rightarrow> (s', d') \<noteq> (s, d) | _ \<Rightarrow> True"
  shows "comm_doit (FinOp n s d M) y = Num 0 \<and> comm_doit y (FinOp n s d M) = Num 0"
  using assms by (cases y) (auto simp: comm_doit_def neg_expr_def)

text \<open>
  C33: \<open>expand_commutator\<close> returns, and returns a fixpoint of the engine's rewrite, for
  every rewrite that decreases a natural-number measure whenever it changes its argument.
\<close>

theorem expand_commutator_terminates:
  assumes "\<forall>x. f x \<noteq> x \<longrightarrow> \<mu> (f x) < (\<mu> x :: nat)"
  shows "\<exists>r. expand_commutator f e = Some r \<and> f r = r"
proof -
  have ex: "\<exists>k. f ((f ^^ k) e) = (f ^^ k) e" using assms by (rule iterate_reaches_fixpoint)
  then have "f ((f ^^ (LEAST k. f ((f ^^ k) e) = (f ^^ k) e)) e) = (f ^^ (LEAST k. f ((f ^^ k) e) = (f ^^ k) e)) e"
    by (rule LeastI_ex)
  with ex show ?thesis by (simp add: expand_commutator_unfold)
qed

text \<open>
  C34: the loop returns exactly when some iterate of the rewrite is a fixpoint, and its
  result is the first such iterate; when none is, it runs for ever.
\<close>

theorem expand_commutator_first_fixpoint:
  "expand_commutator f e = Some r \<longleftrightarrow>
     (\<exists>k. r = (f ^^ k) e \<and> f r = r \<and> (\<forall>j < k. f ((f ^^ j) e) \<noteq> (f ^^ j) e))"
proof
  assume "expand_commutator f e = Some r"
  then obtain k0 where k0: "f ((f ^^ k0) e) = (f ^^ k0) e"
    and r: "r = (f ^^ (LEAST k. f ((f ^^ k) e) = (f ^^ k) e)) e"
    by (auto simp: expand_commutator_unfold split: if_splits)
  show "\<exists>k. r = (f ^^ k) e \<and> f r = r \<and> (\<forall>j < k. f ((f ^^ j) e) \<noteq> (f ^^ j) e)"
    using r LeastI [of "\<lambda>k. f ((f ^^ k) e) = (f ^^ k) e", OF k0] not_less_Least by blast
next
  assume "\<exists>k. r = (f ^^ k) e \<and> f r = r \<and> (\<forall>j < k. f ((f ^^ j) e) \<noteq> (f ^^ j) e)"
  then obtain k where k: "r = (f ^^ k) e" "f r = r" "\<forall>j < k. f ((f ^^ j) e) \<noteq> (f ^^ j) e" by blast
  have "(LEAST k. f ((f ^^ k) e) = (f ^^ k) e) = k"
    using k by (intro Least_equality) (auto simp: not_less [symmetric])
  with k show "expand_commutator f e = Some r" by (auto simp: expand_commutator_unfold)
qed

section \<open>Witnesses\<close>

theorem comm_doit_zero_sound_witness:
  "comm_doit (FinOp ''opA'' ''X'' 2 [[0, 1], [1, 0]]) (FinOp ''opB'' ''Y'' 2 [[1, 0], [0, -1]]) = Num 0 \<and>
   (\<exists>txy tyx.
      domain_expansion (Prod [FinOp ''opA'' ''X'' 2 [[0, 1], [1, 0]], FinOp ''opB'' ''Y'' 2 [[1, 0], [0, -1]]])
        [''X'', ''Y''] (Some [(''X'', eye 2), (''Y'', eye 2)]) = ok [txy] \<and>
      domain_expansion (Prod [FinOp ''opB'' ''Y'' 2 [[1, 0], [0, -1]], FinOp ''opA'' ''X'' 2 [[0, 1], [1, 0]]])
        [''X'', ''Y''] (Some [(''X'', eye 2), (''Y'', eye 2)]) = ok [tyx] \<and>
      mset (fst txy) = mset (fst tyx) \<and> snd txy = snd tyx)"
proof -
  have "is_sq 2 [[0, 1], [1, 0]]" "is_sq 2 [[1, 0], [0, -1]]"
    by (simp_all add: is_sq_def)
  then show ?thesis
    using comm_doit_zero_sound [of "FinOp ''opA'' ''X'' 2 [[0, 1], [1, 0]]" "FinOp ''opB'' ''Y'' 2 [[1, 0], [0, -1]]"
        "\<lambda>_. 2" "[''X'', ''Y'']" "[(''X'', eye 2), (''Y'', eye 2)]"]
    by (simp add: comm_doit_def)
qed

theorem comm_doit_finite_commutes_witness:
  "comm_doit (RDOperator ''opA'' \<lparr>subspace_name = ''X'', subspace_dimension = 2\<rparr>) (RDsymbol ''g'' 1) = Num 0 \<and>
   comm_doit (RDsymbol ''g'' 1) (RDOperator ''opA'' \<lparr>subspace_name = ''X'', subspace_dimension = 2\<rparr>) = Num 0 \<and>
   comm_doit (RDOperator ''opA'' \<lparr>subspace_name = ''X'', subspace_dimension = 2\<rparr>) (Boson ''a'' ''a'' Creation) = Num 0 \<and>
   comm_doit (RDOperator ''opA'' \<lparr>subspace_name = ''X'', subspace_dimension = 2\<rparr>)
             (RDOperator ''opB'' \<lparr>subspace_name = ''Y'', subspace_dimension = 2\<rparr>) = Num 0"
  using comm_doit_finite_commutes [of "Sym ''g'' 1" "''X''" 2 "''opA''" "[]"]
    comm_doit_finite_commutes [of "Boson ''a'' ''a'' Creation" "''X''" 2 "''opA''" "[]"]
    comm_doit_finite_commutes [of "FinOp ''opB'' ''Y'' 2 []" "''X''" 2 "''opA''" "[]"]
  by (simp add: RDOperator_def RDsymbol_def)

theorem expand_commutator_terminates_witness:
  "\<exists>r. expand_commutator
         (\<lambda>x. case x of Comm a b \<Rightarrow> if comm_doit a b = Num 0 then Num 0 else x | _ \<Rightarrow> x)
         (Comm (FinOp ''opA'' ''X'' 2 [[0, 1], [1, 0]]) (Sym ''g'' 1)) = Some r \<and>
       (case r of Comm a b \<Rightarrow> if comm_doit a b = Num 0 then Num 0 else r | _ \<Rightarrow> r) = r"
proof -
  have "\<forall>x. (case x of Comm a b \<Rightarrow> if comm_doit a b = Num 0 then Num 0 else x | _ \<Rightarrow> x) \<noteq> x \<longrightarrow>
            size (case x of Comm a b \<Rightarrow> if comm_doit a b = Num 0 then Num 0 else x | _ \<Rightarrow> x) < size x"
    by (auto split: expr.splits)
  then show ?thesis by (rule expand_commutator_terminates)
qed

theorem expand_commutator_first_fixpoint_witness:
  "expand_commutator
     (\<lambda>x. case x of Comm a b \<Rightarrow> if comm_doit a b = Num 0 then Num 0 else x | _ \<Rightarrow> x)
     (Comm (FinOp ''opA'' ''X'' 2 [[0, 1], [1, 0]]) (Sym ''g'' 1)) = Some (Num 0)"
proof -
  let ?f = "\<lambda>x. case x of Comm a b \<Rightarrow> if comm_doit a b = Num 0 then Num 0 else x | _ \<Rightarrow> x"
  let ?e = "Comm (FinOp ''opA'' ''X'' 2 [[0, 1], [1, 0]]) (Sym ''g'' 1)"
  have "Num 0 = (?f ^^ 1) ?e \<and> ?f (Num 0) = Num 0 \<and> (\<forall>j < 1. ?f ((?f ^^ j) ?e) \<noteq> (?f ^^ j) ?e)"
    by (simp add: comm_doit_def)
  then show ?thesis using expand_commutator_first_fixpoint [of ?f ?e "Num 0"] by blast
qed

end
