(* ===== verification/DiagonalExpansion.thy ===== *)
theory DiagonalExpansion
  imports Commutator
begin

text \<open>
  The diagonal classifier against the domain expansion: a term that \<open>group_by_diagonal\<close>
  files under \<open>True\<close> (its bosons balance and its finite factors are diagonal, C8) expands
  in the full tensor-product space to a matrix that is diagonal. Diagonal square matrices
  are closed under products and Kronecker products, the identities are diagonal, and a
  boson's matrix is the identity.
\<close>

definition diag_val :: "tval \<Rightarrow> bool" where
  "diag_val t \<longleftrightarrow> (\<forall>K. snd t = Some K \<longrightarrow> offdiag_zero K)"

section \<open>Diagonal matrices\<close>

lemma offdiag_zero_iff:
  "is_sq n K \<Longrightarrow> offdiag_zero K \<longleftrightarrow> (\<forall>i < n. \<forall>j < n. i \<noteq> j \<longrightarrow> K ! i ! j = 0)"
proof -
  assume "is_sq n K"
  then have "n = length K" by (simp add: is_sq_def)
  then show ?thesis
    unfolding offdiag_zero_def list_all_iff by (simp add: atLeast0LessThan Ball_def) (metis (no_types))
qed

lemma offdiag_zero_eye: "offdiag_zero (eye n)"
  by (simp add: offdiag_zero_iff [OF is_sq_eye] eye_nth)

lemma offdiag_zero_mat_mul:
  assumes "is_sq n A" "is_sq n B" "offdiag_zero A" "offdiag_zero B"
  shows "offdiag_zero (mat_mul A B)"
proof -
  have a: "\<forall>i < n. \<forall>j < n. i \<noteq> j \<longrightarrow> A ! i ! j = 0" and b: "\<forall>i < n. \<forall>j < n. i \<noteq> j \<longrightarrow> B ! i ! j = 0"
    using assms by (simp_all add: offdiag_zero_iff)
  have "mat_mul A B ! i ! j = 0" if "i < n" "j < n" "i \<noteq> j" for i j
  proof -
    have "A ! i ! t * B ! t ! j = 0" if "t < n" for t
      using a b \<open>i < n\<close> \<open>j < n\<close> \<open>i \<noteq> j\<close> that by (cases "t = i") auto
    then have "(\<Sum>t<n. A ! i ! t * B ! t ! j) = 0" by (intro sum.neutral) simp
    then show ?thesis using that assms(1,2) by (simp add: mat_mul_nth)
  qed
  then show ?thesis using is_sq_mat_mul [OF assms(1,2)] by (simp add: offdiag_zero_iff)
qed

lemma offdiag_zero_kron:
  assumes "is_sq p A" "is_sq q B" "offdiag_zero A" "offdiag_zero B"
  shows "offdiag_zero (kron A B)"
proof -
  have a: "\<forall>i < p. \<forall>j < p. i \<noteq> j \<longrightarrow> A ! i ! j = 0" and b: "\<forall>i < q. \<forall>j < q. i \<noteq> j \<longrightarrow> B ! i ! j = 0"
    using assms by (simp_all add: offdiag_zero_iff)
  have "kron A B ! i ! j = 0" if "i < p * q" "j < p * q" "i \<noteq> j" for i j
  proof -
    have q: "0 < q" using that(1) by (cases q) auto
    have id: "i div q < p" "j div q < p" "i mod q < q" "j mod q < q"
      using that(1,2) q by (simp_all add: less_mult_imp_div_less)
    have "i div q \<noteq> j div q \<or> i mod q \<noteq> j mod q"
      using that(3) by (metis div_mult_mod_eq)
    then show ?thesis using a b id by (auto simp: kron_nth [OF assms(1,2) that(1,2)])
  qed
  then show ?thesis using is_sq_kron [OF assms(1,2)] by (simp add: offdiag_zero_iff)
qed

lemma offdiag_zero_kron_list:
  assumes "list_all2 is_sq ns ms" "list_all offdiag_zero ms" "kron_list ms = ok K"
  shows "offdiag_zero K"
proof -
  have "offdiag_zero (foldl kron A ms')"
    if "is_sq n A" "offdiag_zero A" "list_all2 is_sq ns' ms'" "list_all offdiag_zero ms'" for n A ns' ms'
    using that
  proof (induction ms' arbitrary: n A ns')
    case (Cons m ms')
    then obtain k ks where "ns' = k # ks" "is_sq k m" "list_all2 is_sq ks ms'"
      by (auto simp: list_all2_Cons2)
    with Cons show ?case by (auto intro: Cons.IH [of "n * k"] is_sq_kron offdiag_zero_kron)
  qed simp
  with assms show ?thesis
    by (cases ms) (auto simp: kron_list_def list_all2_Cons2)
qed

lemma offdiag_zero_padded:
  "offdiag_zero M \<Longrightarrow> list_all offdiag_zero (padded subs D s M)"
  by (auto simp: padded_def list_all_iff offdiag_zero_eye)

section \<open>Diagonal values through the expansion\<close>

lemma tmul_diag:
  assumes "sq_val N x" "sq_val N y" "diag_val x" "diag_val y" "tmul x y = ok z"
  shows "diag_val z"
  using assms offdiag_zero_mat_mul [of N]
  by (auto simp: tmul_def sq_val_def diag_val_def split: option.splits if_splits)

lemma mul_singletons_diag:
  "sq_val N acc \<Longrightarrow> diag_val acc \<Longrightarrow>
   list_all (\<lambda>y. \<exists>t. y = [t] \<and> sq_val N t \<and> diag_val t) ys \<Longrightarrow>
   \<exists>z. foldM vmul [acc] ys = ok [z] \<and> diag_val z"
proof (induction ys arbitrary: acc)
  case (Cons y ys)
  then obtain t where y: "y = [t]" "sq_val N t" "diag_val t" by auto
  from tmul_sq [OF Cons.prems(1) y(2)] obtain z where z: "tmul acc t = ok z" "sq_val N z"
    by blast
  have "diag_val z" by (rule tmul_diag [OF Cons.prems(1) y(2) Cons.prems(2) y(3) z(1)])
  with Cons.IH [OF z(2)] Cons.prems(3) obtain w where w: "foldM vmul [z] ys = ok [w]" "diag_val w"
    by auto
  have "vmul [acc] y = ok [z]" by (simp add: vmul_def y z(1))
  with w show ?case by simp
qed (simp add: diag_val_def)

lemma expand_leaf_diag:
  assumes "is_leaf f" "op_fits D f" "finite_diagonal f" "subs \<noteq> []"
    and ids: "\<forall>s \<in> set subs. map_of ids s = Some (eye (D s))"
  shows "\<exists>t. domain_expansion f subs (Some ids) = ok [t] \<and> diag_val t"
proof (cases f)
  case (FinOp nm s n M)
  with assms(2,3) have sq: "is_sq (D s) M" and dM: "offdiag_zero M" by auto
  from expand_operator [of subs D s M ids nm n] assms(4) sq ids obtain K where
    K: "domain_expansion (FinOp nm s n M) subs (Some ids) = ok [([], Some K)]"
       "kron_list (padded subs D s M) = ok K"
    by blast
  have "offdiag_zero K"
    by (rule offdiag_zero_kron_list [OF is_sq_padded [of D s M subs, OF sq] offdiag_zero_padded [OF dM] K(2)])
  with K(1) FinOp show ?thesis by (simp add: diag_val_def)
next
  case (Boson nm m k)
  then show ?thesis by (simp add: expand_Boson [OF assms(4) ids] diag_val_def offdiag_zero_eye)
qed (use assms(1) in \<open>simp_all add: diag_val_def\<close>)

lemma expand_term_diag:
  assumes "list_all is_leaf fs" "list_all (op_fits D) fs" "list_all finite_diagonal fs" "subs \<noteq> []"
    and ids: "\<forall>s \<in> set subs. map_of ids s = Some (eye (D s))"
  shows "\<exists>t. rbind (mapM (\<lambda>f. domain_expansion f subs (Some ids)) fs) mul_all = ok [t] \<and> diag_val t"
proof -
  let ?N = "prod_list (map D subs)"
  let ?Q = "\<lambda>f y. \<exists>t. y = [t] \<and> sq_val ?N t \<and> diag_val t"
  obtain ys where ys: "mapM (\<lambda>f. domain_expansion f subs (Some ids)) fs = ok ys" "list_all2 ?Q fs ys"
  proof (rule mapM_ok_exists [of fs "\<lambda>f. domain_expansion f subs (Some ids)" ?Q, THEN exE])
    fix f assume "f \<in> set fs"
    with assms(1,2,3) have "is_leaf f" "op_fits D f" "finite_diagonal f" by (simp_all add: list_all_iff)
    with expand_leaf [OF _ _ assms(4) ids] expand_leaf_diag [OF _ _ _ assms(4) ids]
    show "\<exists>y. domain_expansion f subs (Some ids) = ok y \<and> ?Q f y" by fastforce
  qed blast
  have "list_all (\<lambda>y. \<exists>t. y = [t] \<and> sq_val ?N t \<and> diag_val t) ys"
    by (rule list_all2_all_snd [OF ys(2)]) blast
  from mul_singletons_diag [OF _ _ this, of "([], None)"] obtain z where
    "foldM vmul [([], None)] ys = ok [z]" "diag_val z"
    by (auto simp: sq_val_def diag_val_def)
  with ys(1) show ?thesis by (simp add: mul_all_def)
qed

lemma boson_finite_diagonal: "is_boson f \<Longrightarrow> finite_diagonal f"
  by (cases f) simp_all

lemma term_diagonal_finite: "term_diagonal fs \<Longrightarrow> list_all finite_diagonal fs"
  by (auto simp: term_diagonal_def list_all_iff boson_finite_diagonal)

lemma no_False_group:
  assumes "diag_classifiable e" "group_by_diagonal e = ok d" "get0 d False = []"
  shows "list_all term_diagonal (snd (decompose e)) \<and> length (get0 d True) = length (snd (decompose e))"
proof -
  let ?P = "\<lambda>fs. term_diagonal (concat (map atom_factors fs))"
  from assms(1) have cl: "classifiable e" and nl: "\<not> is_leaf e" by (simp_all add: diag_classifiable_def)
  from group_by_diagonal_eq [OF assms(1)] assms(2)
  have d: "d = group_into (map (\<lambda>fs. (?P fs, term_of fs)) (expand_terms e))" by simp
  from assms(3) have "filter (\<lambda>fs. \<not> ?P fs) (expand_terms e) = []"
    by (simp only: d get0_group_terms simp_thms map_is_Nil_conv)
  then have all: "\<forall>fs \<in> set (expand_terms e). ?P fs" by (simp add: filter_empty_conv)
  then have "filter ?P (expand_terms e) = expand_terms e" by (simp add: filter_id_conv)
  then have "length (get0 d True) = length (expand_terms e)"
    by (simp only: d get0_group_terms simp_thms length_map)
  moreover have "snd (decompose e) = map (\<lambda>fs. concat (map atom_factors fs)) (expand_terms e)"
    using classifiable_generic [OF cl nl] by simp
  ultimately show ?thesis using all by (simp add: list_all_iff)
qed

text \<open>
  C16: when \<open>group_by_diagonal\<close> files every term of an expression as diagonal (its
  \<open>False\<close> group is empty) and the expression's operators fit their subspaces, the domain
  expansion of the expression is, term by term, a diagonal square matrix on the full product
  space, one per term of the \<open>True\<close> group: the classifier's verdict agrees with the
  matrices the expansion builds (spec sections 4.3 and 8).
\<close>

theorem domain_expansion_diagonal:
  assumes "diag_classifiable e" "expansion_ready D subs e"
    and "group_by_diagonal e = ok d" "get0 d False = []"
  shows "\<exists>ts. domain_expansion e subs None = ok ts \<and> length ts = length (get0 d True) \<and>
              list_all (\<lambda>t. \<exists>K. snd t = Some K \<and> is_sq (prod_list (map D subs)) K \<and> offdiag_zero K) ts"
proof -
  let ?N = "prod_list (map D subs)"
  let ?fss = "snd (decompose e)"
  let ?Q = "\<lambda>fs v. \<exists>t. v = [t] \<and> sq_val ?N t \<and> (snd t \<noteq> None \<longleftrightarrow> list_ex has_matrix fs) \<and> diag_val t"
  let ?P = "\<lambda>v. \<exists>t K. v = [t] \<and> snd t = Some K \<and> is_sq ?N K \<and> offdiag_zero K"
  from assms(2) have fit: "expansion_fits D subs e" and hm: "list_all (list_ex has_matrix) ?fss"
    by (simp_all add: expansion_ready_def)
  from fit have ne: "subs \<noteq> []" and fits: "list_all (op_fits D) (concat ?fss)"
    and lv: "list_all (list_all is_leaf) ?fss"
    by (simp_all add: expansion_fits_def classifiable_def)
  from no_False_group [OF assms(1,3,4)] have td: "list_all term_diagonal ?fss"
    and len: "length (get0 d True) = length ?fss" by simp_all
  from expansion_ids [OF fit] obtain ids where ids: "\<forall>s \<in> set subs. map_of ids s = Some (eye (D s))"
    and de: "domain_expansion e subs None =
               rbind (mapM (\<lambda>fs. rbind (mapM (\<lambda>f. domain_expansion f subs (Some ids)) fs) mul_all) ?fss)
                 add_all"
    by blast
  obtain vs where vs: "mapM (\<lambda>fs. rbind (mapM (\<lambda>f. domain_expansion f subs (Some ids)) fs) mul_all) ?fss = ok vs"
    "list_all2 ?Q ?fss vs"
  proof (rule mapM_ok_exists [THEN exE])
    fix fs assume fs: "fs \<in> set ?fss"
    from fs td have "list_all finite_diagonal fs" by (intro term_diagonal_finite) (simp add: list_all_iff)
    moreover from fs lv fits have "list_all is_leaf fs" "list_all (op_fits D) fs"
      by (auto simp: list_all_iff)
    ultimately
    show "\<exists>v. rbind (mapM (\<lambda>f. domain_expansion f subs (Some ids)) fs) mul_all = ok v \<and> ?Q fs v"
      using expand_term [OF _ _ ne ids] expand_term_diag [OF _ _ _ ne ids] by fastforce
  qed blast
  have "list_all2 (\<lambda>fs v. ?P v) ?fss vs"
    using vs(2) hm by (auto simp: list_all2_conv_all_nth list_all_iff sq_val_def diag_val_def split: option.splits)
  then have P: "list_all ?P vs" by (rule list_all2_all_snd) blast
  then have "add_all vs = ok (concat vs)" by (intro add_all_square) (auto simp: list_all_iff)
  moreover have "list_all (\<lambda>y. \<exists>t. y = [t]) vs" using P by (auto simp: list_all_iff)
  then have "length (concat vs) = length (get0 d True)"
    using list_all2_lengthD [OF vs(2)] len by (simp add: length_concat_singletons)
  moreover have "list_all (\<lambda>t. \<exists>K. snd t = Some K \<and> is_sq ?N K \<and> offdiag_zero K) (concat vs)"
    using P by (auto simp: list_all_iff)
  ultimately show ?thesis using de vs(1) by auto
qed

section \<open>Witness\<close>

theorem domain_expansion_diagonal_witness:
  "diag_classifiable (Sum [Prod [Sym ''g'' 1, FinOp ''sz'' ''spin'' 2 [[1, 0], [0, -1]]],
                           Prod [Sym ''h'' 1, Boson ''a'' ''a'' Creation, Boson ''a'' ''a'' Annihilation,
                                 FinOp ''sz'' ''spin'' 2 [[1, 0], [0, -1]]]]) \<and>
   expansion_ready (\<lambda>_. 2) [''spin'']
     (Sum [Prod [Sym ''g'' 1, FinOp ''sz'' ''spin'' 2 [[1, 0], [0, -1]]],
           Prod [Sym ''h'' 1, Boson ''a'' ''a'' Creation, Boson ''a'' ''a'' Annihilation,
                 FinOp ''sz'' ''spin'' 2 [[1, 0], [0, -1]]]]) \<and>
   group_by_diagonal (Sum [Prod [Sym ''g'' 1, FinOp ''sz'' ''spin'' 2 [[1, 0], [0, -1]]],
                           Prod [Sym ''h'' 1, Boson ''a'' ''a'' Creation, Boson ''a'' ''a'' Annihilation,
                                 FinOp ''sz'' ''spin'' 2 [[1, 0], [0, -1]]]]) =
     ok [(True, [Prod [Sym ''g'' 1, FinOp ''sz'' ''spin'' 2 [[1, 0], [0, -1]]],
                 Prod [Sym ''h'' 1, Boson ''a'' ''a'' Creation, Boson ''a'' ''a'' Annihilation,
                       FinOp ''sz'' ''spin'' 2 [[1, 0], [0, -1]]]])] \<and>
   (\<exists>ts. domain_expansion (Sum [Prod [Sym ''g'' 1, FinOp ''sz'' ''spin'' 2 [[1, 0], [0, -1]]],
                           Prod [Sym ''h'' 1, Boson ''a'' ''a'' Creation, Boson ''a'' ''a'' Annihilation,
                                 FinOp ''sz'' ''spin'' 2 [[1, 0], [0, -1]]]]) [''spin''] None = ok ts \<and>
         length ts = 2 \<and> list_all (\<lambda>t. \<exists>K. snd t = Some K \<and> is_sq 2 K \<and> offdiag_zero K) ts)"
proof -
  let ?sz = "FinOp ''sz'' ''spin'' 2 [[1, 0], [0, -1]]"
  let ?e = "Sum [Prod [Sym ''g'' 1, ?sz],
                 Prod [Sym ''h'' 1, Boson ''a'' ''a'' Creation, Boson ''a'' ''a'' Annihilation, ?sz]]"
  let ?d = "[(True, [Prod [Sym ''g'' 1, ?sz],
                     Prod [Sym ''h'' 1, Boson ''a'' ''a'' Creation, Boson ''a'' ''a'' Annihilation, ?sz]])]"
  have c: "diag_classifiable ?e"
    by (simp add: diag_classifiable_def classifiable_def decomposes_def decompose_def
                  has_comm_atom_def distrib_def is_sq_def)
  have r: "expansion_ready (\<lambda>_. 2) [''spin''] ?e"
    by (simp add: expansion_ready_def expansion_fits_def classifiable_def decomposes_def decompose_def
                  has_comm_atom_def distrib_def is_sq_def)
  have g: "group_by_diagonal ?e = ok ?d"
    unfolding group_by_diagonal_eq [OF c]
    by (simp add: distrib_def term_diagonal_def offdiag_zero_def
                  balanced_pairs_def boson_pairs_def group_into_def dict_add_def get0_def)
  have f: "get0 ?d False = []" by (simp add: get0_def)
  from domain_expansion_diagonal [OF c r g f] c r g show ?thesis by (simp add: get0_def numeral_2_eq_2)
qed
end
