(* ===== verification/Generator.thy ===== *)
theory Generator
  imports Domain
begin

text \<open>
  The helpers of \<open>src/Modules/sympy/utils.py\<close> that build the generator of the
  transformation: \<open>nested_commutator\<close> (lines 223--229), \<open>group_by_infinite_operators\<close>
  (lines 231--248), \<open>S\<close> (lines 251--257) and \<open>get_finite_operators\<close> (lines 266--272).
\<close>

text \<open>
  \<open>nested_commutator(A, B, k)\<close> with a Python integer \<open>k\<close>: the recursion on \<open>k - 1\<close>
  only stops at 0 or 1, so a negative \<open>k\<close> recurses without end.
\<close>

partial_function (option) nested_commutator :: "expr \<Rightarrow> expr \<Rightarrow> int \<Rightarrow> expr res" where
  "nested_commutator A B k =
     (if k = 0 then ok A
      else if k = 1 then ok (Comm A B)
      else rbind (nested_commutator A B (k - 1)) (\<lambda>X. ok (Comm X B)))"

declare nested_commutator.simps [code]

text \<open>The commutator \<open>[\<dots>[[A, B], B], \<dots>, B]\<close> with \<open>n\<close> brackets.\<close>

definition comm_power :: "expr \<Rightarrow> expr \<Rightarrow> nat \<Rightarrow> expr" where
  "comm_power A B n = ((\<lambda>X. Comm X B) ^^ n) A"

text \<open>
  \<open>group_by_infinite_operators(expr)\<close>: the value of a dictionary entry is a sum, kept
  as the list of its summands (\<open>dict.get(k, 0) + t\<close> appends \<open>t\<close>); \<open>sum_expr\<close> is the
  expression of such a sum, which the code decomposes again. The keys are the products of
  the boson factors of the infinite terms (1 for none), the values the products of their
  other factors.
\<close>

fun sum_expr :: "expr list \<Rightarrow> expr" where
  "sum_expr [] = Num 0"
| "sum_expr [t] = t"
| "sum_expr ts = Sum ts"

definition boson_part :: "expr list \<Rightarrow> expr" where
  "boson_part fs = term_of (filter is_boson fs)"

definition finite_part :: "expr list \<Rightarrow> expr" where
  "finite_part fs = term_of (filter (\<lambda>f. \<not> is_boson f) fs)"

definition group_by_infinite_operators :: "expr \<Rightarrow> (expr, expr list) dict res" where
  "group_by_infinite_operators e =
     rbind (group_by_infinite e) (\<lambda>v.
       case v of
         Inl _ \<Rightarrow> throw AttributeError
       | Inr groups \<Rightarrow>
           rbind (get_terms_and_factors (sum_expr (get0 groups True))) (\<lambda>r.
             ok (foldl (\<lambda>res fs. dict_add res (boson_part fs, finite_part fs))
                   [(Num 1, get0 groups False)] (snd r))))"

text \<open>
  \<open>get_finite_operators(names, subspaces, dims, matrices)\<close>: the \<open>i\<close>-th operator is
  built from the \<open>i\<close>-th entry of each list (\<open>IndexError\<close> when one is shorter than
  \<open>names\<close>); the identities come from their sum (\<open>np_sum\<close> of the list, \<open>sum_expr\<close>);
  the declared dimension is the product of the values of \<open>dict(zip(subspaces, dims))\<close>;
  each operator's matrix is the Kronecker product, over the list \<open>subspaces\<close>, of its
  own matrix where the subspace is its own and the identity elsewhere.
\<close>

definition get_finite_operators ::
  "string list \<Rightarrow> string list \<Rightarrow> nat list \<Rightarrow> mat list \<Rightarrow> expr list res" where
  "get_finite_operators names subspaces dims matrices =
     (if length subspaces < length names \<or> length dims < length names \<or> length matrices < length names
      then throw IndexError
      else
        let ops = map (\<lambda>i. (subspaces ! i, dims ! i, matrices ! i)) [0..<length names];
            dim = prod_list (map snd (dict_update [] (zip subspaces dims)))
        in rbind (get_finite_identities
                   (sum_expr (map (\<lambda>(nm, op). case op of (s, n, M) \<Rightarrow> FinOp nm s n M) (zip names ops))))
             (\<lambda>identities.
               rbind (mapM (\<lambda>(s, n, M).
                        rbind (mapM (\<lambda>s'. if s' \<noteq> s then lookup_id identities s' else ok M) subspaces)
                          kron_list) ops)
                 (\<lambda>expanded. ok (map (\<lambda>(nm, K). FinOp nm ''finite'' dim K) (zip names expanded)))))"

text \<open>
  \<open>S(dim, name, order)\<close>: \<open>dim^2\<close> fresh symbols \<open>name_i\<close> of the given order (the
  decimal numeral of \<open>i\<close> is Python's \<open>f"{i}"\<close>), reshaped row by row into a
  \<open>dim\<close> by \<open>dim\<close> matrix, as an operator on the subspace \<open>finite\<close>. The matrix is
  symbolic, so the result is a record of its own rather than an \<open>expr\<close>.
\<close>

fun digits :: "nat \<Rightarrow> string" where
  "digits n = (if n < 10 then [char_of (48 + n)] else digits (n div 10) @ [char_of (48 + n mod 10)])"

declare digits.simps [simp del]

record sym_operator =
  sop_name :: string
  sop_subspace :: string
  sop_dim :: nat
  sop_matrix :: "expr list list"

text \<open>sympy's \<open>reshape(rows, cols)\<close> of a flat list, row by row.\<close>

definition reshape :: "nat \<Rightarrow> nat \<Rightarrow> 'a list \<Rightarrow> 'a list list" where
  "reshape rows cols xs = map (\<lambda>i. take cols (drop (i * cols) xs)) [0..<rows]"

definition S :: "nat \<Rightarrow> string \<Rightarrow> nat \<Rightarrow> sym_operator" where
  "S dim name order =
     (let symbols_list = map (\<lambda>i. Sym (name @ ''_'' @ digits i) order) [0..<dim ^ 2]
      in \<lparr>sop_name = name, sop_subspace = ''finite'', sop_dim = dim,
          sop_matrix = reshape dim dim symbols_list\<rparr>)"

text \<open>Reading a decimal numeral back.\<close>

definition read_digits :: "string \<Rightarrow> nat" where
  "read_digits cs = foldl (\<lambda>acc c. 10 * acc + (of_char c - 48)) 0 cs"

section \<open>Lemmas\<close>

lemma expand_term_of:
  assumes "fs \<noteq> []" "\<forall>f \<in> set fs. is_atom f"
  shows "expand_terms (term_of fs) = [fs]"
proof (cases fs rule: term_of.cases)
  case (2 f)
  with assms show ?thesis by (simp add: expand_atom)
next
  case (3 f g hs)
  have "map expand_terms fs = map (\<lambda>f. [[f]]) fs"
    using assms(2) by (simp add: expand_atom)
  with 3 show ?thesis by (simp only: term_of.simps expand_terms.simps distrib_singletons)
qed (use assms in simp)

text \<open>Terms of an expansion, summed again, expand to themselves.\<close>

definition atom_terms :: "expr list list \<Rightarrow> bool" where
  "atom_terms T \<longleftrightarrow> (\<forall>fs \<in> set T. fs \<noteq> [] \<and> (\<forall>f \<in> set fs. is_atom f \<and> \<not> is_comm f))"

lemma expand_sum_expr:
  assumes "T \<noteq> []" "atom_terms T"
  shows "expand_terms (sum_expr (map term_of T)) = T"
proof (cases "map term_of T" rule: sum_expr.cases)
  case 1
  with assms show ?thesis by simp
next
  case (2 t)
  then obtain fs where "T = [fs]" by (cases T) auto
  with assms show ?thesis by (simp add: expand_term_of atom_terms_def)
next
  case (3 t u ts)
  have "map (\<lambda>fs. expand_terms (term_of fs)) T = map (\<lambda>fs. [fs]) T"
    using assms(2) by (intro map_cong refl) (simp add: expand_term_of atom_terms_def)
  then have "concat (map expand_terms (map term_of T)) = concat (map (\<lambda>fs. [fs]) T)"
    by (simp only: map_map comp_def)
  also have "\<dots> = T" by (induction T) simp_all
  finally have "concat (map expand_terms (map term_of T)) = T" .
  with 3 show ?thesis by simp
qed

lemma atom_factors_leaf: "\<not> is_power f \<Longrightarrow> atom_factors f = [f]"
  by (cases f) simp_all

lemma decompose_sum_expr:
  assumes "T \<noteq> []" "atom_terms T"
  shows "decomposes (sum_expr (map term_of T)) \<and>
         snd (decompose (sum_expr (map term_of T))) = map (\<lambda>fs. concat (map atom_factors fs)) T"
proof (cases "is_leaf (sum_expr (map term_of T)) \<or> is_power (sum_expr (map term_of T))")
  case True
  have "\<exists>f. T = [[f]]"
  proof (cases T)
    case (Cons fs T')
    show ?thesis
    proof (cases T')
      case Nil
      with True Cons assms(2) show ?thesis
        by (cases fs rule: term_of.cases) (auto simp: atom_terms_def)
    next
      case (Cons _ _)
      with True \<open>T = fs # T'\<close> show ?thesis by simp
    qed
  qed (use assms in simp)
  then obtain f where T: "T = [[f]]" by blast
  with True show ?thesis by (cases f) (auto simp: decomposes_def decompose_def)
next
  case False
  have "\<not> has_comm_atom (sum_expr (map term_of T))"
    using assms by (auto simp: has_comm_atom_iff expand_sum_expr atom_terms_def)
  with False show ?thesis
    by (simp add: decomposes_def decompose_generic expand_sum_expr [OF assms])
qed

lemma boson_part_not_one:
  "list_ex is_boson fs \<Longrightarrow> boson_part fs \<noteq> Num 1"
proof
  assume "list_ex is_boson fs" "boson_part fs = Num 1"
  then obtain b bs where "filter is_boson fs = b # bs" "is_boson b"
    by (cases "filter is_boson fs") (auto simp: list_ex_iff filter_empty_conv,
        metis Cons_eq_filterD)
  with \<open>boson_part fs = Num 1\<close> show False
    by (cases bs) (auto simp: boson_part_def elim: is_boson.elims)
qed


lemma nested_commutator_diverges_aux:
  assumes "nested_commutator A B k = Some r"
  shows "0 \<le> k"
  apply (rule nested_commutator.raw_induct [where P = "\<lambda>A B k r. 0 \<le> k", OF _ assms])
  subgoal premises prems for nc A B k r
  proof (rule ccontr)
    assume k: "\<not> 0 \<le> k"
    show False
    proof (cases "nc A B (k - 1)")
      case None
      with prems(2) k show False by simp
    next
      case (Some r')
      with prems(1) [of A B "k - 1" r'] k show False by simp
    qed
  qed
  done

lemma dict_update_snoc:
  "dict_update d (kvs @ [kv]) = AList.update (fst kv) (snd kv) (dict_update d kvs)"
  by (simp add: dict_update_def)

lemma dict_update_keys:
  "fst ` set (dict_update d kvs) = fst ` set d \<union> fst ` set kvs"
  by (induction kvs rule: rev_induct) (auto simp: dict_update_snoc dom_update)

lemma dict_update_distinct:
  "distinct (map fst d) \<Longrightarrow> distinct (map fst (dict_update d kvs))"
  by (induction kvs rule: rev_induct) (simp_all add: dict_update_snoc distinct_update)

lemma set_update_sub: "set (AList.update k v al) \<subseteq> insert (k, v) (set al)"
  by (induction al) auto

lemma zip_map_self: "zip xs (map f xs) = map (\<lambda>x. (x, f x)) xs"
  by (induction xs) simp_all

lemma dict_update_values:
  "\<forall>(k, v) \<in> set d. v = D k \<Longrightarrow> \<forall>(k, v) \<in> set kvs. v = D k \<Longrightarrow>
   \<forall>(k, v) \<in> set (dict_update d kvs). v = D k"
proof (induction kvs rule: rev_induct)
  case (snoc kv kvs)
  then have "\<forall>(k, v) \<in> set (dict_update d kvs). v = D k" by simp
  moreover have "set (AList.update (fst kv) (snd kv) (dict_update d kvs)) \<subseteq>
                   insert (fst kv, snd kv) (set (dict_update d kvs))"
    by (rule set_update_sub)
  ultimately show ?case using snoc.prems(2) by (fastforce simp: dict_update_snoc)
qed simp

text \<open>The declared dimension: the product over the distinct subspaces.\<close>

lemma prod_dict_values:
  "prod_list (map snd (dict_update [] (zip xs (map D xs)))) = prod D (set xs)"
proof -
  let ?d = "dict_update [] (zip xs (map D xs))"
  have "\<forall>(k, v) \<in> set ?d. v = D k"
    by (rule dict_update_values) (auto simp: zip_map_self)
  then have "map snd ?d = map D (map fst ?d)" by (induction ?d) auto
  moreover have "distinct (map fst ?d)" by (rule dict_update_distinct) simp
  moreover have "set (map fst ?d) = set xs" by (simp add: dict_update_keys zip_map_self image_image)
  ultimately show ?thesis by (metis prod.distinct_set_conv_list)
qed

lemma prod_set_le_prod_list:
  "\<forall>s \<in> set xs. 1 \<le> D s \<Longrightarrow> prod D (set xs) \<le> prod_list (map (D :: 'a \<Rightarrow> nat) xs)"
proof (induction xs)
  case (Cons x xs)
  show ?case
  proof (cases "x \<in> set xs")
    case True
    then have "prod D (set (x # xs)) = prod D (set xs)" by (simp add: insert_absorb)
    also have "\<dots> \<le> prod_list (map D xs)" using Cons by simp
    also have "\<dots> \<le> D x * prod_list (map D xs)" using Cons.prems by simp
    finally show ?thesis by simp
  next
    case False
    with Cons show ?thesis by simp
  qed
qed simp

lemma prod_set_less_prod_list:
  "\<forall>s \<in> set xs. 2 \<le> D s \<Longrightarrow> \<not> distinct xs \<Longrightarrow> prod D (set xs) < prod_list (map (D :: 'a \<Rightarrow> nat) xs)"
proof (induction xs)
  case (Cons x xs)
  have pos: "\<forall>s \<in> set xs. 1 \<le> D s" using Cons.prems(1) by auto
  show ?case
  proof (cases "x \<in> set xs")
    case True
    then have "prod D (set (x # xs)) = prod D (set xs)" by (simp add: insert_absorb)
    also have "\<dots> \<le> prod_list (map D xs)" using prod_set_le_prod_list [OF pos] .
    also have "\<dots> < D x * prod_list (map D xs)"
    proof -
      have "0 < prod_list (map D xs)" using pos by (induction xs) auto
      moreover have "2 \<le> D x" using Cons.prems(1) by simp
      ultimately show ?thesis by simp
    qed
    finally show ?thesis by simp
  next
    case False
    with Cons.prems have "\<not> distinct xs" by simp
    with Cons.IH Cons.prems(1) have "prod D (set xs) < prod_list (map D xs)" by simp
    moreover have "2 \<le> D x" using Cons.prems(1) by simp
    ultimately show ?thesis using False by simp
  qed
qed simp

lemma expand_leaves:
  "list_all is_leaf ts \<Longrightarrow> expand_terms (Sum ts) = map (\<lambda>t. [t]) ts"
proof (induction ts)
  case (Cons t ts)
  then have "expand_terms t = [[t]]" by (cases t) simp_all
  with Cons show ?case by simp
qed simp

text \<open>The identities of a sum of operators: one per subspace, the last one winning.\<close>

lemma identities_of_leaves:
  assumes "list_all is_leaf ts"
  shows "get_finite_identities (sum_expr ts) = ok (foldl (\<lambda>ids f. dict_update ids (leaf_ids f)) [] ts)"
proof (cases ts rule: sum_expr.cases)
  case 1
  then show ?thesis by (simp add: get_finite_identities_leaf)
next
  case (2 t)
  with assms show ?thesis by (cases t) (simp_all add: get_finite_identities_leaf dict_update_def)
next
  case (3 t u us)
  have ex: "expand_terms (Sum ts) = map (\<lambda>t. [t]) ts" by (rule expand_leaves [OF assms])
  have at: "atom_factors t = [t]" if "t \<in> set ts" for t
    using assms that by (cases t) (auto simp: list_all_iff)
  have "snd (decompose (Sum ts)) = map (\<lambda>fs. concat (map atom_factors fs)) (expand_terms (Sum ts))"
    by (simp only: decompose_generic is_leaf.simps is_power.simps not_False_eq_True snd_conv)
  also have "\<dots> = map (\<lambda>t. [t]) ts" unfolding ex using at by simp
  finally have d: "snd (decompose (Sum ts)) = map (\<lambda>t. [t]) ts" .
  have "\<not> is_comm t" if "t \<in> set ts" for t
    using assms that by (cases t) (auto simp: list_all_iff)
  then have "\<not> has_comm_atom (Sum ts)" unfolding has_comm_atom_iff ex by auto
  then have c: "classifiable (Sum ts)"
    using assms by (simp add: classifiable_def decomposes_def d list_all_iff)
  have cc: "concat (map (\<lambda>t. [t]) ts) = ts" by (induction ts) simp_all
  have "sum_expr ts = Sum ts" using 3 by simp
  then show ?thesis
    using get_finite_identities_eq [OF c] by (simp only: d cc is_leaf.simps not_False_eq_True simp_thms)
qed

lemma zip_upt_nth: "zip xs (map f [0..<length xs]) = map (\<lambda>i. (xs ! i, f i)) [0..<length xs]"
  by (rule nth_equalityI) simp_all

lemma concat_singletons: "concat (map (\<lambda>x. [f x]) xs) = map f xs"
  by (induction xs) simp_all

text \<open>
  Where every list has one entry per name and each matrix is square of the dimension \<open>D\<close>
  of its subspace, \<open>get_finite_operators\<close> returns one operator per name, of declared
  dimension the product over the distinct subspaces, whose matrix is the ordered Kronecker
  product over the subspace list, square of the product over the list.
\<close>

lemma get_finite_operators_ok:
  assumes len: "length subs = length names" "length dims = length names" "length mats = length names"
    and ne: "names \<noteq> []"
    and fit: "\<forall>i < length names. dims ! i = D (subs ! i) \<and> is_sq (dims ! i) (mats ! i)"
  shows "\<exists>Ks. get_finite_operators names subs dims mats =
               ok (map (\<lambda>(nm, K). FinOp nm ''finite'' (prod D (set subs)) K) (zip names Ks)) \<and>
             length Ks = length names \<and>
             (\<forall>i < length names. kron_list (padded subs D (subs ! i) (mats ! i)) = ok (Ks ! i) \<and>
                                is_sq (prod_list (map D subs)) (Ks ! i))"
proof -
  let ?n = "length names"
  let ?N = "prod_list (map D subs)"
  let ?ops = "map (\<lambda>i. (subs ! i, dims ! i, mats ! i)) [0..<?n]"
  let ?fins = "map (\<lambda>(nm, op). case op of (s, n, M) \<Rightarrow> FinOp nm s n M) (zip names ?ops)"
  let ?ids = "foldl (\<lambda>ids f. dict_update ids (leaf_ids f)) [] ?fins"
  have dims: "dims = map D subs" using len fit by (simp add: list_eq_iff_nth_eq)
  have fins: "?fins = map (\<lambda>i. FinOp (names ! i) (subs ! i) (dims ! i) (mats ! i)) [0..<?n]"
    by (simp only: zip_upt_nth map_map) (simp add: comp_def)
  have lv: "list_all is_leaf ?fins" by (simp only: fins) (simp add: list_all_iff)
  have fits: "list_all (op_fits D) ?fins" by (simp only: fins) (use fit in \<open>auto simp: list_all_iff\<close>)
  have subs: "concat (map op_subspace ?fins) = subs"
  proof -
    have "map op_subspace (map (\<lambda>i. FinOp (names ! i) (subs ! i) (dims ! i) (mats ! i)) [0..<?n]) =
            map (\<lambda>i. [subs ! i]) [0..<length subs]"
      by (simp add: len(1))
    then show ?thesis by (simp only: fins concat_singletons map_nth)
  qed
  have ids: "\<forall>s \<in> set subs. map_of ?ids s = Some (eye (D s))"
  proof
    fix s assume "s \<in> set subs"
    then have "s \<in> set (concat (map op_subspace ?fins))" by (simp only: subs)
    then show "map_of ?ids s = Some (eye (D s))"
      by (simp only: map_of_foldl_ids [OF fits] if_True)
  qed
  let ?Q = "\<lambda>op K. kron_list (padded subs D (fst op) (snd (snd op))) = ok K \<and> is_sq ?N K"
  obtain Ks where Ks: "mapM (\<lambda>(s, n, M). rbind (mapM (\<lambda>s'. if s' \<noteq> s then lookup_id ?ids s' else ok M) subs)
                                          kron_list) ?ops = ok Ks"
    "list_all2 ?Q ?ops Ks"
  proof (rule mapM_ok_exists [THEN exE])
    fix op assume "op \<in> set ?ops"
    then obtain i where i: "i < ?n" "op = (subs ! i, dims ! i, mats ! i)" by auto
    have m: "mapM (\<lambda>s'. if s' \<noteq> subs ! i then lookup_id ?ids s' else ok (mats ! i)) subs =
               ok (padded subs D (subs ! i) (mats ! i))"
      unfolding padded_def using ids by (intro mapM_ok) (auto simp: lookup_id_Some)
    have sq: "is_sq (D (subs ! i)) (mats ! i)" using fit i(1) by auto
    have "subs \<noteq> []" using ne len(1) by auto
    then have "padded subs D (subs ! i) (mats ! i) \<noteq> []" by (simp add: padded_def)
    then obtain K where "kron_list (padded subs D (subs ! i) (mats ! i)) = ok K" "is_sq ?N K"
      using kron_list_is_sq [OF is_sq_padded [of D "subs ! i" "mats ! i" subs, OF sq]] by blast
    with m i(2) show "\<exists>K. (\<lambda>(s, n, M). rbind (mapM (\<lambda>s'. if s' \<noteq> s then lookup_id ?ids s' else ok M) subs)
                                          kron_list) op = ok K \<and> ?Q op K"
      by simp
  qed blast
  have dim: "prod_list (map snd (dict_update [] (zip subs dims))) = prod D (set subs)"
    by (simp add: dims prod_dict_values)
  have "get_finite_operators names subs dims mats =
          ok (map (\<lambda>(nm, K). FinOp nm ''finite'' (prod D (set subs)) K) (zip names Ks))"
    using len identities_of_leaves [OF lv] Ks(1)
    by (simp add: get_finite_operators_def Let_def dim del: map_map)
  moreover have "length Ks = ?n" using list_all2_lengthD [OF Ks(2)] by simp
  moreover have "\<forall>i < ?n. ?Q (?ops ! i) (Ks ! i)" using Ks(2) by (simp add: list_all2_conv_all_nth)
  ultimately show ?thesis by auto
qed

lemma digits_roundtrip: "read_digits (digits n) = n"
proof (induction n rule: digits.induct)
  case (1 n)
  show ?case
  proof (cases "n < 10")
    case True
    then show ?thesis by (simp add: read_digits_def digits.simps)
  next
    case False
    then have "read_digits (digits n) = 10 * read_digits (digits (n div 10)) + n mod 10"
      by (subst digits.simps) (simp add: read_digits_def)
    with 1 False show ?thesis by simp
  qed
qed

lemma digits_inj: "digits m = digits n \<Longrightarrow> m = n"
  by (metis digits_roundtrip)

lemma nth_reshape:
  assumes "length xs = rows * cols" "i < rows" "j < cols"
  shows "reshape rows cols xs ! i ! j = xs ! (i * cols + j)"
proof -
  have "i * cols + j < rows * cols"
    using assms(2,3) by (metis add.commute mult.commute nat_mult_less_cancel_disj
        linorder_not_le less_le_trans add_less_cancel_left mult_Suc_right Suc_leI
        add_le_mono le_refl)
  then show ?thesis using assms by (simp add: reshape_def)
qed

lemma concat_reshape:
  "length xs = rows * cols \<Longrightarrow> concat (reshape rows cols xs) = xs"
proof (induction rows arbitrary: xs)
  case (Suc rows)
  have "reshape (Suc rows) cols xs = take cols xs # reshape rows cols (drop cols xs)"
    by (simp add: reshape_def map_upt_Suc drop_drop add.commute del: upt_Suc)
  moreover have "length (drop cols xs) = rows * cols" using Suc.prems by simp
  ultimately show ?case using Suc.IH by simp
qed (simp add: reshape_def)

lemma get0_foldl_pairs:
  "get0 (foldl (\<lambda>res x. dict_add res (g x, h x)) d xs) k = get0 d k @ map h (filter (\<lambda>x. g x = k) xs)"
  by (induction xs arbitrary: d) simp_all

lemma get0_single: "get0 [(k, v)] k' = (if k' = k then v else [])"
  by (simp add: get0_def)

text \<open>The decomposition of the infinite part that \<open>group_by_infinite_operators\<close> reads.\<close>

lemma infinite_part_decomposed:
  assumes "classifiable e" "\<not> is_leaf e"
  defines "T \<equiv> filter (\<lambda>fs. list_ex is_boson (concat (map atom_factors fs))) (expand_terms e)"
  shows "\<exists>r. get_terms_and_factors (sum_expr (map term_of T)) = ok r \<and>
             snd r = (if T = [] then [[Num 0]] else map (\<lambda>fs. concat (map atom_factors fs)) T)"
proof (cases "T = []")
  case True
  then show ?thesis by (simp add: gtf_leaf_or_power decompose_def)
next
  case False
  have "\<not> has_comm_atom e" using classifiable_generic [OF assms(1,2)] by simp
  then have "atom_terms T"
    using expand_terms_atoms [of e]
    by (fastforce simp: T_def atom_terms_def has_comm_atom_iff list_ex_iff)
  from decompose_sum_expr [OF False this] False show ?thesis
    by (simp add: gtf_decomposes)
qed

text \<open>
  C15: \<open>nested_commutator\<close> is total on the depths where it returns and says what it
  returns: on a non-negative depth \<open>k\<close> the \<open>k\<close>-fold commutator, on a negative depth
  nothing (the recursion on \<open>k - 1\<close> never meets its base cases: Python's
  \<open>RecursionError\<close>).
\<close>

theorem nested_commutator_returns:
  "nested_commutator A B k = (if 0 \<le> k then ok (comm_power A B (nat k)) else None)"
proof (cases "0 \<le> k")
  case True
  have "nested_commutator A B (int n) = ok (comm_power A B n)" for n
  proof (induction n)
    case 0
    show ?case by (subst nested_commutator.simps) (simp add: comm_power_def)
  next
    case (Suc n)
    show ?case
    proof (cases n)
      case 0
      then show ?thesis by (subst nested_commutator.simps) (simp add: comm_power_def)
    next
      case (Suc m)
      with Suc.IH show ?thesis by (subst nested_commutator.simps) (simp add: comm_power_def)
    qed
  qed
  with True show ?thesis by (metis int_nat_eq)
next
  case False
  then show ?thesis by (cases "nested_commutator A B k") (auto dest: nested_commutator_diverges_aux)
qed

text \<open>
  C17: on an expression whose factors are leaves, \<open>group_by_infinite_operators\<close> keeps
  the finite terms under the key 1 and files every infinite term under the product of its
  boson factors, with the product of its other factors as the value; when there is no
  infinite term, the code decomposes the default 0 and adds a term 0 under the key 1.
\<close>

theorem group_by_infinite_operators_split:
  assumes "classifiable e" and "\<not> is_leaf e"
  shows "\<exists>d. group_by_infinite_operators e = ok d \<and>
           get0 d (Num 1) =
             map term_of (filter (\<lambda>fs. \<not> list_ex is_boson (concat (map atom_factors fs))) (expand_terms e)) @
             (if list_ex (list_ex is_boson) (snd (decompose e)) then [] else [Num 0]) \<and>
           (\<forall>k. k \<noteq> Num 1 \<longrightarrow>
              get0 d k = map finite_part (filter (\<lambda>fs. boson_part fs = k)
                                           (filter (list_ex is_boson) (snd (decompose e)))))"
proof -
  let ?A = "\<lambda>fs. concat (map atom_factors fs)"
  let ?P = "\<lambda>fs. list_ex is_boson (?A fs)"
  let ?T = "filter ?P (expand_terms e)"
  let ?F = "map term_of (filter (\<lambda>fs. \<not> ?P fs) (expand_terms e))"
  let ?G = "group_into (map (\<lambda>fs. (?P fs, term_of fs)) (expand_terms e))"
  let ?B = "filter (list_ex is_boson) (snd (decompose e))"
  have dE: "snd (decompose e) = map ?A (expand_terms e)"
    using classifiable_generic [OF assms] by simp
  have B: "?B = map ?A ?T" by (simp add: dE filter_map comp_def)
  have gT: "get0 ?G True = map term_of ?T" and gF: "get0 ?G False = ?F"
    by (simp_all only: get0_group_terms simp_thms)
  from infinite_part_decomposed [OF assms] obtain r where
    r: "get_terms_and_factors (sum_expr (map term_of ?T)) = ok r"
       "snd r = (if ?T = [] then [[Num 0]] else map ?A ?T)"
    by blast
  let ?d = "foldl (\<lambda>res fs. dict_add res (boson_part fs, finite_part fs)) [(Num 1, ?F)] (snd r)"
  have ok: "group_by_infinite_operators e = ok ?d"
    by (simp only: group_by_infinite_operators_def group_by_infinite_eq [OF assms] rbind_ok
          sum.case gT gF r(1))
  have bp: "fs \<in> set ?B \<Longrightarrow> boson_part fs \<noteq> Num 1" for fs
    by (simp add: boson_part_not_one)
  show ?thesis
  proof (intro exI conjI allI impI)
    show "group_by_infinite_operators e = ok ?d" by (rule ok)
  next
    show "get0 ?d (Num 1) = ?F @ (if list_ex (list_ex is_boson) (snd (decompose e)) then [] else [Num 0])"
    proof (cases "?T = []")
      case True
      then have "?B = []" by (simp add: B)
      then have "\<not> list_ex (list_ex is_boson) (snd (decompose e))"
        by (simp add: list_ex_iff filter_empty_conv)
      with True r(2) show ?thesis
        by (simp add: get0_foldl_pairs get0_single boson_part_def finite_part_def)
    next
      case False
      then have "?B \<noteq> []" by (simp add: B)
      then have "list_ex (list_ex is_boson) (snd (decompose e))"
        by (simp add: list_ex_iff filter_empty_conv)
      moreover have "filter (\<lambda>fs. boson_part fs = Num 1) ?B = []"
        using bp by (simp add: filter_empty_conv)
      ultimately show ?thesis using False r(2)
        by (simp add: get0_foldl_pairs get0_single B)
    qed
  next
    fix k :: expr assume k: "k \<noteq> Num 1"
    show "get0 ?d k = map finite_part (filter (\<lambda>fs. boson_part fs = k) ?B)"
    proof (cases "?T = []")
      case True
      with k r(2) show ?thesis
        by (simp add: get0_foldl_pairs get0_single boson_part_def B)
    next
      case False
      with k r(2) show ?thesis by (simp add: get0_foldl_pairs get0_single B)
    qed
  qed
qed

text \<open>
  C18: on a single operator, symbol, number or boson the code fails: \<open>group_by_infinite\<close>
  returns a boolean there and \<open>.get\<close> raises \<open>AttributeError\<close>.
\<close>

theorem group_by_infinite_operators_leaf:
  assumes "is_leaf e"
  shows "group_by_infinite_operators e = throw AttributeError"
  using assms by (simp add: group_by_infinite_operators_def)

text \<open>
  C19: for operators on pairwise distinct subspaces, with one list entry per name and
  each matrix square of its subspace's dimension, \<open>get_finite_operators\<close> returns the
  operators promoted to the full finite space: operator \<open>i\<close> has the ordered Kronecker
  product of its matrix and the identities as matrix, and its declared dimension, the
  product of the dimensions, is the size of that matrix.
\<close>

theorem get_finite_operators_distinct:
  assumes "length subs = length names" "length dims = length names" "length mats = length names"
    and "names \<noteq> []"
    and "\<forall>i < length names. dims ! i = D (subs ! i) \<and> is_sq (dims ! i) (mats ! i)"
    and "distinct subs"
  shows "\<exists>Ks. get_finite_operators names subs dims mats =
               ok (map (\<lambda>(nm, K). FinOp nm ''finite'' (prod_list dims) K) (zip names Ks)) \<and>
             length Ks = length names \<and>
             (\<forall>i < length names. kron_list (padded subs D (subs ! i) (mats ! i)) = ok (Ks ! i) \<and>
                                is_sq (prod_list dims) (Ks ! i))"
proof -
  have dims: "dims = map D subs" using assms(1,2,5) by (simp add: list_eq_iff_nth_eq)
  have "prod D (set subs) = prod_list dims"
    using assms(6) by (simp add: dims prod.distinct_set_conv_list)
  with get_finite_operators_ok [OF assms(1-5)] show ?thesis by (simp add: dims)
qed

text \<open>
  C20: when two operators share a subspace, as \<open>sigma_x\<close> and \<open>sigma_z\<close> on \<open>spin\<close> do in
  the repository's example, the subspace list repeats it, each matrix is a Kronecker
  product over the repeated list, and every returned operator declares a dimension (the
  product over the distinct subspaces) smaller than the size of its matrix.
\<close>

theorem get_finite_operators_shared_subspace:
  assumes "length subs = length names" "length dims = length names" "length mats = length names"
    and "names \<noteq> []"
    and "\<forall>i < length names. dims ! i = D (subs ! i) \<and> is_sq (dims ! i) (mats ! i)"
    and "\<forall>i < length names. 2 \<le> dims ! i"
    and "\<not> distinct subs"
  shows "\<exists>ops. get_finite_operators names subs dims mats = ok ops \<and> length ops = length names \<and>
              list_all (\<lambda>op. case op of FinOp _ _ n K \<Rightarrow> n < length K | _ \<Rightarrow> False) ops"
proof -
  from get_finite_operators_ok [OF assms(1-5)] obtain Ks where
    Ks: "get_finite_operators names subs dims mats =
           ok (map (\<lambda>(nm, K). FinOp nm ''finite'' (prod D (set subs)) K) (zip names Ks))"
        "length Ks = length names"
        "\<forall>i < length names. is_sq (prod_list (map D subs)) (Ks ! i)"
    by blast
  have "\<forall>s \<in> set subs. 2 \<le> D s"
  proof
    fix s assume "s \<in> set subs"
    then obtain i where "i < length names" "s = subs ! i" using assms(1) by (auto simp: in_set_conv_nth)
    with assms(5,6) show "2 \<le> D s" by auto
  qed
  from prod_set_less_prod_list [OF this assms(7)]
  have lt: "prod D (set subs) < prod_list (map D subs)" .
  have "list_all (\<lambda>op. case op of FinOp _ _ n K \<Rightarrow> n < length K | _ \<Rightarrow> False)
          (map (\<lambda>(nm, K). FinOp nm ''finite'' (prod D (set subs)) K) (zip names Ks))"
    using Ks(2,3) lt by (auto simp: list_all_iff set_zip is_sq_def)
  with Ks(1,2) show ?thesis by auto
qed

text \<open>
  C21: the matrix of \<open>S(dim, name, order)\<close> is \<open>dim\<close> by \<open>dim\<close>, and its entry in row \<open>i\<close>
  and column \<open>j\<close> is the symbol \<open>name_k\<close> of the given order with \<open>k = i*dim + j\<close>.
\<close>

theorem S_matrix:
  "length (sop_matrix (S dim name order)) = dim \<and>
   (\<forall>i < dim. length (sop_matrix (S dim name order) ! i) = dim \<and>
      (\<forall>j < dim. sop_matrix (S dim name order) ! i ! j = Sym (name @ ''_'' @ digits (i * dim + j)) order))"
proof -
  let ?xs = "map (\<lambda>i. Sym (name @ ''_'' @ digits i) order) [0..<dim ^ 2]"
  have len: "length ?xs = dim * dim" by (simp add: power2_eq_square)
  have lt: "i * dim + j < dim * dim" if "i < dim" "j < dim" for i j
  proof -
    have "i * dim + j < i * dim + dim" using that(2) by simp
    also have "\<dots> = Suc i * dim" by simp
    also have "\<dots> \<le> dim * dim" by (rule mult_le_mono1) (use that(1) in simp)
    finally show ?thesis .
  qed
  have row: "length (reshape dim dim ?xs ! i) = dim" if "i < dim" for i
  proof -
    have "Suc i * dim \<le> dim * dim" by (rule mult_le_mono1) (use that in simp)
    then have "dim \<le> dim * dim - i * dim" by simp
    then show ?thesis using that len by (simp add: reshape_def)
  qed
  have ent: "reshape dim dim ?xs ! i ! j = Sym (name @ ''_'' @ digits (i * dim + j)) order"
    if "i < dim" "j < dim" for i j
    using nth_reshape [OF len that] lt [OF that] by (simp add: power2_eq_square)
  have "length (reshape dim dim ?xs) = dim" by (simp add: reshape_def)
  with row ent show ?thesis unfolding S_def Let_def sym_operator.select_convs by blast
qed

text \<open>
  C22: the unknowns of \<open>S\<close>, the entries of its matrix, are pairwise distinct symbols,
  so the solver has one free unknown per entry.
\<close>

theorem S_unknowns_distinct: "distinct (concat (sop_matrix (S dim name order)))"
proof -
  let ?xs = "map (\<lambda>i. Sym (name @ ''_'' @ digits i) order) [0..<dim ^ 2]"
  have "concat (reshape dim dim ?xs) = ?xs"
    by (rule concat_reshape) (simp add: power2_eq_square)
  moreover have "inj_on (\<lambda>i. Sym (name @ ''_'' @ digits i) order) {0..<dim ^ 2}"
    by (intro inj_onI) (auto intro: digits_inj)
  moreover have "distinct [0..<dim ^ 2]" by simp
  ultimately have "distinct (concat (reshape dim dim ?xs))" by (simp only: distinct_map) simp
  then show ?thesis unfolding S_def Let_def sym_operator.select_convs .
qed

section \<open>Witnesses\<close>

theorem nested_commutator_returns_witness:
  "nested_commutator (Sym ''a'' 0) (Sym ''b'' 1) 2 = ok (Comm (Comm (Sym ''a'' 0) (Sym ''b'' 1)) (Sym ''b'' 1)) \<and>
   nested_commutator (Sym ''a'' 0) (Sym ''b'' 1) (-1) = None"
  using nested_commutator_returns [of "Sym ''a'' 0" "Sym ''b'' 1" 2]
    nested_commutator_returns [of "Sym ''a'' 0" "Sym ''b'' 1" "-1"]
  by (simp add: comm_power_def numeral_2_eq_2)

text \<open>A Rabi-type coupling \<open>g*a^+*sx + w*sz\<close>.\<close>

theorem group_by_infinite_operators_split_witness:
  "\<exists>d. group_by_infinite_operators
         (Sum [Prod [Sym ''g'' 1, Boson ''a'' ''a'' Creation, FinOp ''sx'' ''spin'' 2 [[0, 1], [1, 0]]],
               Prod [Sym ''w'' 0, FinOp ''sz'' ''spin'' 2 [[1, 0], [0, -1]]]]) = ok d \<and>
       get0 d (Num 1) = [Prod [Sym ''w'' 0, FinOp ''sz'' ''spin'' 2 [[1, 0], [0, -1]]]] \<and>
       get0 d (Boson ''a'' ''a'' Creation) =
         [Prod [Sym ''g'' 1, FinOp ''sx'' ''spin'' 2 [[0, 1], [1, 0]]]]"
proof -
  let ?e = "Sum [Prod [Sym ''g'' 1, Boson ''a'' ''a'' Creation, FinOp ''sx'' ''spin'' 2 [[0, 1], [1, 0]]],
                 Prod [Sym ''w'' 0, FinOp ''sz'' ''spin'' 2 [[1, 0], [0, -1]]]]"
  have c: "classifiable ?e"
    by (simp add: classifiable_def decomposes_def decompose_def has_comm_atom_def distrib_def)
  have l: "\<not> is_leaf ?e" by simp
  from group_by_infinite_operators_split [OF c l] obtain d where
    d: "group_by_infinite_operators ?e = ok d"
       "get0 d (Num 1) =
          map term_of (filter (\<lambda>fs. \<not> list_ex is_boson (concat (map atom_factors fs))) (expand_terms ?e)) @
          (if list_ex (list_ex is_boson) (snd (decompose ?e)) then [] else [Num 0])"
       "\<forall>k. k \<noteq> Num 1 \<longrightarrow>
          get0 d k = map finite_part (filter (\<lambda>fs. boson_part fs = k)
                                       (filter (list_ex is_boson) (snd (decompose ?e))))"
    by blast
  have "get0 d (Num 1) = [Prod [Sym ''w'' 0, FinOp ''sz'' ''spin'' 2 [[1, 0], [0, -1]]]]"
    using d(2) by (simp add: decompose_def distrib_def)
  moreover have "get0 d (Boson ''a'' ''a'' Creation) =
                   [Prod [Sym ''g'' 1, FinOp ''sx'' ''spin'' 2 [[0, 1], [1, 0]]]]"
    using d(3) [rule_format, of "Boson ''a'' ''a'' Creation"]
    by (simp add: decompose_def distrib_def boson_part_def finite_part_def)
  ultimately show ?thesis using d(1) by blast
qed

theorem group_by_infinite_operators_leaf_witness:
  "group_by_infinite_operators (Boson ''a'' ''a'' Annihilation) = throw AttributeError"
  by (rule group_by_infinite_operators_leaf) simp

text \<open>\<open>sigma_x\<close> on \<open>spin\<close> and \<open>tau_x\<close> on \<open>charge\<close>, both of dimension 2.\<close>

theorem get_finite_operators_distinct_witness:
  "get_finite_operators [''sigma_x'', ''tau_x''] [''spin'', ''charge''] [2, 2]
       [[[0, 1], [1, 0]], [[0, 1], [1, 0]]] =
     ok [FinOp ''sigma_x'' ''finite'' 4 (kron [[0, 1], [1, 0]] (eye 2)),
         FinOp ''tau_x'' ''finite'' 4 (kron (eye 2) [[0, 1], [1, 0]])]"
proof -
  have fit: "\<forall>i < length [''sigma_x'', ''tau_x'']. [2, 2] ! i = (\<lambda>_ :: string. 2 :: nat) ([''spin'', ''charge''] ! i) \<and>
               is_sq ([2, 2] ! i) ([[[0, 1], [1, 0]], [[0, 1], [1, 0]]] ! i)"
    by (auto simp: less_Suc_eq nth_Cons' is_sq_def)
  from get_finite_operators_distinct [where subs = "[''spin'', ''charge'']", OF _ _ _ _ fit]
  obtain Ks where
    Ks: "get_finite_operators [''sigma_x'', ''tau_x''] [''spin'', ''charge''] [2, 2]
           [[[0, 1], [1, 0]], [[0, 1], [1, 0]]] =
         ok (map (\<lambda>(nm, K). FinOp nm ''finite'' (prod_list [2, 2]) K) (zip [''sigma_x'', ''tau_x''] Ks))"
      "length Ks = 2"
      "\<forall>i < 2. kron_list (padded [''spin'', ''charge''] (\<lambda>_. 2) ([''spin'', ''charge''] ! i)
                          ([[[0, 1], [1, 0]], [[0, 1], [1, 0]]] ! i)) = ok (Ks ! i)"
    by auto
  from Ks(2) obtain K0 K1 where k: "Ks = [K0, K1]"
    by (cases Ks; cases "tl Ks") auto
  from Ks(3) [rule_format, of 0] Ks(3) [rule_format, of 1]
  have "K0 = kron [[0, 1], [1, 0]] (eye 2)" "K1 = kron (eye 2) [[0, 1], [1, 0]]"
    by (simp_all add: k padded_def kron_list_def)
  with Ks(1) k show ?thesis by simp
qed

text \<open>The example system of \<open>src/test.py\<close>: \<open>sigma_x\<close>, \<open>sigma_z\<close> on \<open>spin\<close>, \<open>tau_x\<close> on \<open>charge\<close>.\<close>

theorem get_finite_operators_shared_subspace_witness:
  "\<exists>ops. get_finite_operators [''sigma_x'', ''sigma_z'', ''tau_x''] [''spin'', ''spin'', ''charge'']
            [2, 2, 2] [[[0, 1], [1, 0]], [[1, 0], [0, -1]], [[0, 1], [1, 0]]] = ok ops \<and>
          length ops = 3 \<and>
          list_all (\<lambda>op. case op of FinOp _ _ n K \<Rightarrow> n < length K | _ \<Rightarrow> False) ops"
proof -
  have fit: "\<forall>i < length [''sigma_x'', ''sigma_z'', ''tau_x'']. [2, 2, 2] ! i = (\<lambda>_ :: string. 2 :: nat)
               ([''spin'', ''spin'', ''charge''] ! i) \<and>
               is_sq ([2, 2, 2] ! i) ([[[0, 1], [1, 0]], [[1, 0], [0, -1]], [[0, 1], [1, 0]]] ! i)"
    by (auto simp: less_Suc_eq nth_Cons' is_sq_def)
  have two: "\<forall>i < length [''sigma_x'', ''sigma_z'', ''tau_x'']. 2 \<le> [2, 2, 2 :: nat] ! i"
    by (auto simp: less_Suc_eq nth_Cons')
  show ?thesis
    using get_finite_operators_shared_subspace [where subs = "[''spin'', ''spin'', ''charge'']",
        OF _ _ _ _ fit two] by (simp add: numeral_3_eq_3)
qed

theorem S_matrix_witness:
  "sop_matrix (S 2 ''S'' 1) ! 1 ! 0 = Sym ''S_2'' 1 \<and> length (sop_matrix (S 2 ''S'' 1)) = 2"
proof -
  have h: "length (sop_matrix (S 2 ''S'' 1)) = 2"
    "\<forall>i < 2. \<forall>j < 2. sop_matrix (S 2 ''S'' 1) ! i ! j = Sym (''S'' @ ''_'' @ digits (i * 2 + j)) 1"
    using S_matrix [of 2 "''S''" 1] by blast+
  have d: "digits 2 = ''2''" by (simp add: digits.simps char_of_def bit_0)
  have "sop_matrix (S 2 ''S'' 1) ! 1 ! 0 = Sym (''S'' @ ''_'' @ digits (1 * 2 + 0)) 1"
    using h(2) [rule_format, of 1 0] by simp
  with d h(1) show ?thesis by simp
qed

end
