(* ===== verification/Prototype.thy ===== *)
theory Prototype
  imports Generator
begin

text \<open>
  The earlier prototype in \<open>src/pysw\<close>. Its classifiers (\<open>src/pysw/utils.py\<close>) do not
  decompose: they walk the unexpanded terms of the expression (\<open>as_ordered_terms()\<close>,
  here \<open>add_terms\<close>) and search each term's tree (\<open>find\<close>, \<open>has\<close>, \<open>count\<close>). Their results
  are pairs or dictionaries of sums, kept as lists of summands; \<open>group_by_diagonal\<close>
  meets the undefined name \<open>Dagger\<close> and returns a result only on expressions without a
  boson. The solver (\<open>src/pysw/solver.py\<close>) is modelled with its loop body up to line 63,
  past which no statement is ever executed; the prototype's own \<open>nested_commutator\<close>
  (lines 84--90) is modelled as written.
  The prototype's \<open>BosonOp(name)\<close> is a boson whose name is its mode.
\<close>

text \<open>The terms sympy's \<open>as_ordered_terms()\<close> lists: the summands of a (flattened) sum.\<close>

fun add_terms :: "expr \<Rightarrow> expr list" where
  "add_terms (Sum es) = concat (map add_terms es)"
| "add_terms e = [e]"

text \<open>\<open>term.find(RDsymbol)\<close>: the symbols anywhere in the tree, as a set (here without repeats).\<close>

fun syms :: "expr \<Rightarrow> expr list" where
  "syms (Sym s n) = [Sym s n]"
| "syms (Sum es) = concat (map syms es)"
| "syms (Prod es) = concat (map syms es)"
| "syms (Power b _) = syms b"
| "syms (Comm a b) = syms a @ syms b"
| "syms _ = []"

definition proto_order :: "expr \<Rightarrow> nat" where
  "proto_order t = sum_list (map order_of (remdups (syms t)))"

definition pysw_group_by_order :: "expr \<Rightarrow> (nat, expr list) dict" where
  "pysw_group_by_order e = group_into (map (\<lambda>t. (proto_order t, t)) (add_terms e))"

text \<open>\<open>term.has(BosonOp)\<close>.\<close>

fun has_boson :: "expr \<Rightarrow> bool" where
  "has_boson (Boson _ _ _) = True"
| "has_boson (Sum es) = list_ex has_boson es"
| "has_boson (Prod es) = list_ex has_boson es"
| "has_boson (Power b _) = has_boson b"
| "has_boson (Comm a b) = (has_boson a \<or> has_boson b)"
| "has_boson _ = False"

text \<open>
  \<open>result[int(term.has(BosonOp))]\<close>: a term with a boson goes to slot 1, one without
  to slot 0 (the comment of the code names slot 0 infinite and slot 1 finite).
\<close>

definition pysw_group_by_infinite :: "expr \<Rightarrow> expr list \<times> expr list" where
  "pysw_group_by_infinite e =
     (filter (\<lambda>t. \<not> has_boson t) (add_terms e), filter has_boson (add_terms e))"

text \<open>
  \<open>group_by_diagonal\<close> (lines 29--56). For each term, \<open>count_term\<close> replaces every
  positive power of a boson by that many copies, and \<open>count_term.count(x)\<close> counts the
  nodes equal to \<open>x\<close>: \<open>boson_occ m k t\<close> is that count on the replaced term for the
  annihilator (\<open>k = Annihilation\<close>) or the creator of mode \<open>m\<close>. \<open>boson_list\<close> holds the
  modes of \<open>expr.atoms(BosonOp)\<close>, the bosons of the whole expression.
\<close>

fun boson_occ :: "string \<Rightarrow> ladder \<Rightarrow> expr \<Rightarrow> nat" where
  "boson_occ m k (Boson _ m' k') = (if m' = m \<and> k' = k then 1 else 0)"
| "boson_occ m k (Sum es) = sum_list (map (boson_occ m k) es)"
| "boson_occ m k (Prod es) = sum_list (map (boson_occ m k) es)"
| "boson_occ m k (Power b n) = (if 0 < n \<and> is_boson b then nat n else 1) * boson_occ m k b"
| "boson_occ m k (Comm a b) = boson_occ m k a + boson_occ m k b"
| "boson_occ m k _ = 0"

fun boson_modes :: "expr \<Rightarrow> string list" where
  "boson_modes (Boson _ m _) = [m]"
| "boson_modes (Sum es) = concat (map boson_modes es)"
| "boson_modes (Prod es) = concat (map boson_modes es)"
| "boson_modes (Power b _) = boson_modes b"
| "boson_modes (Comm a b) = boson_modes a @ boson_modes b"
| "boson_modes _ = []"

text \<open>
  Line 44 calls \<open>Dagger\<close>, a name that \<open>src/pysw/utils.py\<close> neither defines nor imports
  (it imports the names of \<open>classes.py\<close>, \<open>eye, Mul, Add, Expr, Pow, UnevaluatedExpr, S\<close>,
  \<open>Commutator, TensorProduct\<close>, \<open>BosonOp\<close>, \<open>defaultdict\<close> and \<open>sympy as sp\<close>): looking it
  up raises \<open>NameError\<close>.
\<close>

definition Dagger :: "expr \<Rightarrow> expr res" where
  "Dagger b = throw NameError"

text \<open>
  \<open>check_balanced(name)\<close> (lines 43--44): the count of \<open>BosonOp(name)\<close> is taken first,
  then \<open>Dagger(BosonOp(name))\<close>, whose count would be the creators'.
\<close>

definition check_balanced :: "expr \<Rightarrow> string \<Rightarrow> bool res" where
  "check_balanced count_term name =
     (let n_ann = boson_occ name Annihilation count_term
      in rbind (Dagger (Boson name name Annihilation)) (\<lambda>dag.
           ok (n_ann = boson_occ name Creation count_term)))"

text \<open>Python's \<open>all\<close> over a generator: it stops at the first false value.\<close>

fun py_all :: "('a \<Rightarrow> bool res) \<Rightarrow> 'a list \<Rightarrow> bool res" where
  "py_all f [] = ok True"
| "py_all f (x # xs) = rbind (f x) (\<lambda>b. if b then py_all f xs else ok False)"

text \<open>
  \<open>term.find(sp.Matrix)\<close> (line 51): \<open>sp.Matrix\<close> is sympy's mutable matrix class, and no
  node of an expression is one (the prototype's \<open>RDOperator\<close> carries no matrix, and a
  matrix inside an expression is immutable), so the search finds nothing; \<open>m.is_diagonal()\<close>
  is \<open>mat_diagonal\<close>.
\<close>

definition find_Matrix :: "expr \<Rightarrow> mat list" where
  "find_Matrix t = []"

definition mat_diagonal :: "mat \<Rightarrow> bool" where
  "mat_diagonal M \<longleftrightarrow>
     list_all (\<lambda>i. list_all (\<lambda>j. i = j \<or> M ! i ! j = 0) [0..<length (M ! i)]) [0..<length M]"

text \<open>
  One pass of the loop (lines 33--54): \<open>result[int(boson_check and matrix_check)]\<close> gets
  the term, slot 1 when both checks hold.
\<close>

definition diag_step :: "string list \<Rightarrow> expr list \<times> expr list \<Rightarrow> expr \<Rightarrow> (expr list \<times> expr list) res" where
  "diag_step boson_list result term =
     rbind (py_all (check_balanced term) boson_list) (\<lambda>boson_check.
       (let matrix_check = list_all mat_diagonal (find_Matrix term)
        in ok (if boson_check \<and> matrix_check then (fst result, snd result @ [term])
               else (fst result @ [term], snd result))))"

definition pysw_group_by_diagonal :: "expr \<Rightarrow> (expr list \<times> expr list) res" where
  "pysw_group_by_diagonal e = foldM (diag_step (remdups (boson_modes e))) ([], []) (add_terms e)"

text \<open>
  The solver (\<open>src/pysw/solver.py\<close>, lines 43--82). A Python value that may be \<open>None\<close>
  (\<open>dict.get\<close> of an absent key) is an \<open>expr option\<close>; \<open>+\<close> with \<open>None\<close> raises
  \<open>TypeError\<close>, and so do iterating a sympy expression and the test \<open>term in non_diag\<close>
  (line 60: no class of the expression model defines \<open>__iter__\<close>, \<open>__getitem__\<close> or
  \<open>__contains__\<close>, and neither does \<open>int\<close>).
\<close>

definition py_add :: "expr option \<Rightarrow> expr option \<Rightarrow> expr res" where
  "py_add a b = (case (a, b) of (Some x, Some y) \<Rightarrow> ok (Sum [x, y]) | _ \<Rightarrow> throw TypeError)"

definition py_iter :: "expr \<Rightarrow> expr list res" where
  "py_iter e = throw TypeError"

definition py_contains :: "expr \<Rightarrow> expr \<Rightarrow> bool res" where
  "py_contains t e = throw TypeError"

text \<open>
  \<open>get_ansatz(Vk)\<close> (lines 7--40) starts by reading \<open>Vk.dim\<close> (line 11), an attribute no
  expression and no \<open>int\<close> has: it raises \<open>AttributeError\<close> on every argument the solver
  can pass, and lines 13--40 are never reached.
\<close>

definition get_ansatz :: "expr \<Rightarrow> (expr \<times> expr list) res" where
  "get_ansatz Vk = throw AttributeError"

record solver_state =
  H_final :: "expr option"
  H_below_k :: "expr option"
  Bk :: expr
  S_acc :: expr

text \<open>
  One iteration of the loop (lines 58--63). Line 63 calls \<open>group_by_infinite_operators\<close>,
  a name that neither \<open>solver.py\<close> nor the modules it imports define (\<open>utils.py\<close> has
  \<open>group_by_infinite_operaters\<close>), so it raises \<open>NameError\<close>; lines 64--80 follow an
  unconditional raise and are never executed.
\<close>

definition solver_iteration ::
  "(int, expr list) dict \<Rightarrow> expr \<Rightarrow> solver_state \<Rightarrow> int \<Rightarrow> solver_state res" where
  "solver_iteration H_ordered non_diag st k =
     rbind (py_add (H_below_k st) (map_option sum_expr (map_of H_ordered k))) (\<lambda>h.
       rbind (py_iter h) (\<lambda>terms.
         rbind (mapM (\<lambda>t. py_contains t non_diag) terms) (\<lambda>bs.
           rbind (get_ansatz (Sum [sum_expr (map fst (filter snd (zip terms bs))), Bk st])) (\<lambda>_.
             throw NameError))))"

text \<open>
  \<open>solver(H, order)\<close>: \<open>order\<close> is a Python \<open>int\<close>, and \<open>range(1, order + 1)\<close> is empty
  for \<open>order \<le> 0\<close>. The orders of the prototype's \<open>group_by_order\<close> are natural numbers.
  Line 50 unpacks \<open>diag, non_diag = group_by_diagonal(H)\<close> before the loop.
\<close>

definition pysw_solver :: "expr \<Rightarrow> int \<Rightarrow> expr option res" where
  "pysw_solver H order =
     (let H_ordered = map (\<lambda>(k, ts). (int k, ts)) (pysw_group_by_order H)
      in rbind (pysw_group_by_diagonal H) (\<lambda>(diag, non_diag_terms).
           (let non_diag = sum_expr non_diag_terms;
                H0 = map_option sum_expr (map_of H_ordered 0)
            in rbind (foldM (solver_iteration H_ordered non_diag)
                        \<lparr>H_final = H0, H_below_k = H0, Bk = Num 0, S_acc = Num 0\<rparr> [1..order])
                 (\<lambda>st. ok (H_final st)))))"

text \<open>
  The prototype's own \<open>nested_commutator\<close> (\<open>src/pysw/utils.py\<close>, lines 84--90), which the
  solver calls on line 76.
\<close>

partial_function (option) pysw_nested_commutator :: "expr \<Rightarrow> expr \<Rightarrow> int \<Rightarrow> expr res" where
  "pysw_nested_commutator A B k =
     (if k = 0 then ok A
      else if k = 1 then ok (Comm A B)
      else rbind (pysw_nested_commutator A B (k - 1)) (\<lambda>X. ok (Comm X B)))"

declare pysw_nested_commutator.simps [code]

text \<open>The expressions the prototype is compared with the core on: sums of products of leaves.\<close>

definition product_terms :: "expr list list \<Rightarrow> bool" where
  "product_terms T \<longleftrightarrow> list_all (\<lambda>fs. 2 \<le> length fs \<and> list_all is_leaf fs) T"

section \<open>Lemmas\<close>

lemma syms_leaf_order: "is_leaf f \<Longrightarrow> sum_list (map order_of (syms f)) = order_of f"
  by (cases f) simp_all

lemma sum_syms_leaves:
  "list_all is_leaf fs \<Longrightarrow> sum_list (map order_of (concat (map syms fs))) = term_order fs"
  by (induction fs) (simp_all add: term_order_def syms_leaf_order)

lemma add_terms_Prods: "add_terms (Sum (map Prod T)) = map Prod T"
  by (induction T) simp_all

lemma sum_remdups_le:
  "sum_list (map (f :: 'a \<Rightarrow> nat) (remdups xs)) \<le> sum_list (map f xs)"
  by (induction xs) auto

lemma sum_remdups_less:
  "\<not> distinct (filter (\<lambda>x. 0 < f x) xs) \<Longrightarrow>
   sum_list (map (f :: 'a \<Rightarrow> nat) (remdups xs)) < sum_list (map f xs)"
proof (induction xs)
  case (Cons x xs)
  show ?case
  proof (cases "x \<in> set xs")
    case True
    show ?thesis
    proof (cases "0 < f x")
      case True
      with \<open>x \<in> set xs\<close> sum_remdups_le [of f xs] show ?thesis by simp
    next
      case False
      with Cons.prems have "\<not> distinct (filter (\<lambda>x. 0 < f x) xs)" by simp
      with Cons.IH \<open>x \<in> set xs\<close> show ?thesis by simp
    qed
  next
    case False
    with Cons.prems have "\<not> distinct (filter (\<lambda>x. 0 < f x) xs)" by (cases "0 < f x") auto
    with Cons.IH False show ?thesis by simp
  qed
qed simp

lemma term_of_long: "2 \<le> length fs \<Longrightarrow> term_of fs = Prod fs"
  by (cases fs rule: term_of.cases) auto

lemma leaf_atom: "is_leaf f \<Longrightarrow> is_atom f"
  by (cases f) (simp_all add: is_atom_def)

lemma leaf_atom_factors: "is_leaf f \<Longrightarrow> atom_factors f = [f]"
  by (cases f) simp_all

lemma concat_leaf_factors: "list_all is_leaf fs \<Longrightarrow> concat (map atom_factors fs) = fs"
  by (induction fs) (simp_all add: leaf_atom_factors)

lemma map_Prod_term_of: "product_terms T \<Longrightarrow> map term_of T = map Prod T"
  by (auto simp: product_terms_def list_all_iff term_of_long)

lemma has_boson_leaf: "is_leaf f \<Longrightarrow> has_boson f = is_boson f"
  by (cases f) simp_all

lemma has_boson_Prod_leaves: "list_all is_leaf fs \<Longrightarrow> has_boson (Prod fs) = list_ex is_boson fs"
  by (induction fs) (simp_all add: has_boson_leaf)

lemma get0_group_Prods:
  assumes "product_terms T"
  shows "get0 (group_into (map (\<lambda>fs. (key fs, term_of fs)) T)) k = map Prod (filter (\<lambda>fs. key fs = k) T)"
proof -
  have "get0 (group_into (map (\<lambda>fs. (key fs, term_of fs)) T)) k = map term_of (filter (\<lambda>fs. key fs = k) T)"
    by (rule get0_group_terms)
  also have "\<dots> = map Prod (filter (\<lambda>fs. key fs = k) T)"
    using assms by (auto simp: product_terms_def list_all_iff term_of_long)
  finally show ?thesis .
qed

lemma expand_sum_products:
  assumes "product_terms T"
  shows "expand_terms (Sum (map Prod T)) = T"
proof -
  have "expand_terms (Prod fs) = [fs]" if "fs \<in> set T" for fs
  proof -
    from assms that have l: "2 \<le> length fs" "list_all is_leaf fs" by (auto simp: product_terms_def list_all_iff)
    then have "fs \<noteq> []" "\<forall>f \<in> set fs. is_atom f" by (auto simp: list_all_iff leaf_atom)
    then show ?thesis using expand_term_of term_of_long [OF l(1)] by metis
  qed
  then have "map (\<lambda>fs. expand_terms (Prod fs)) T = map (\<lambda>fs. [fs]) T" by simp
  then have "concat (map expand_terms (map Prod T)) = concat (map (\<lambda>fs. [fs]) T)"
    by (simp only: map_map comp_def)
  also have "\<dots> = T" by (induction T) simp_all
  finally show ?thesis by simp
qed

lemma sum_products_classifiable:
  assumes "product_terms T"
  shows "classifiable (Sum (map Prod T)) \<and> \<not> is_leaf (Sum (map Prod T)) \<and>
         decompose (Sum (map Prod T)) = (map Prod T, T)"
proof -
  let ?e = "Sum (map Prod T)"
  have ex: "expand_terms ?e = T" by (rule expand_sum_products [OF assms])
  have lv: "\<forall>fs \<in> set T. list_all is_leaf fs" using assms by (simp add: product_terms_def list_all_iff)
  have "map (\<lambda>fs. concat (map atom_factors fs)) T = T"
    using lv by (induction T) (simp_all add: concat_leaf_factors)
  moreover have "map term_of T = map Prod T" by (rule map_Prod_term_of [OF assms])
  ultimately have d: "decompose ?e = (map Prod T, T)"
    by (simp only: decompose_generic is_leaf.simps is_power.simps not_False_eq_True ex)
  have "\<not> is_comm f" if "fs \<in> set T" "f \<in> set fs" for fs f
  proof -
    have "is_leaf f" using lv that by (simp add: list_all_iff)
    then show ?thesis by (cases f) simp_all
  qed
  then have "\<not> has_comm_atom ?e" unfolding has_comm_atom_iff ex by blast
  with d lv show ?thesis by (simp add: classifiable_def decomposes_def list_all_iff)
qed

section \<open>The prototype's order grouping against the core's\<close>

text \<open>
  C23: on a sum of products of leaves in which no term repeats a symbol, the
  prototype's \<open>group_by_order\<close> (which sums the orders of the \<emph>\<open>set\<close> of symbols of a
  term) returns the same dictionary as the core's.
\<close>

theorem pysw_group_by_order_agrees:
  assumes "product_terms T" and "list_all (\<lambda>fs. distinct (concat (map syms fs))) T"
  shows "group_by_order (Sum (map Prod T)) = ok (Inr (pysw_group_by_order (Sum (map Prod T))))"
proof -
  have c: "classifiable (Sum (map Prod T))" "\<not> is_leaf (Sum (map Prod T))"
    using sum_products_classifiable [OF assms(1)] by simp_all
  have lv: "\<forall>fs \<in> set T. list_all is_leaf fs" using assms(1) by (simp add: product_terms_def list_all_iff)
  have "map (\<lambda>fs. (term_order (concat (map atom_factors fs)), term_of fs)) T =
        map (\<lambda>t. (proto_order t, t)) (map Prod T)"
  proof (rule nth_equalityI)
    fix i assume "i < length (map (\<lambda>fs. (term_order (concat (map atom_factors fs)), term_of fs)) T)"
    then have i: "i < length T" by simp
    then have "T ! i \<in> set T" by simp
    with lv assms have l: "list_all is_leaf (T ! i)" "distinct (concat (map syms (T ! i)))"
      "2 \<le> length (T ! i)"
      by (auto simp: list_all_iff product_terms_def)
    have "proto_order (Prod (T ! i)) = term_order (T ! i)"
      using l by (simp add: proto_order_def sum_syms_leaves distinct_remdups_id)
    with i l show "map (\<lambda>fs. (term_order (concat (map atom_factors fs)), term_of fs)) T ! i =
                   map (\<lambda>t. (proto_order t, t)) (map Prod T) ! i"
      by (simp add: concat_leaf_factors term_of_long)
  qed simp
  moreover have "pysw_group_by_order (Sum (map Prod T)) =
                   group_into (map (\<lambda>t. (proto_order t, t)) (map Prod T))"
    by (simp only: pysw_group_by_order_def add_terms_Prods)
  ultimately show ?thesis
    by (simp only: group_by_order_eq [OF c] expand_sum_products [OF assms(1)])
qed

text \<open>
  C24: the two disagree on a term that repeats a symbol of positive order: the spec (and
  the core) add the order once per factor, the prototype once per distinct symbol, so
  \<open>g*g*opA\<close> has order 2 in the core and 1 in the prototype.
\<close>

theorem pysw_order_repeated_symbol:
  assumes "list_all is_leaf fs" and "\<not> distinct (filter (\<lambda>s. 0 < order_of s) (concat (map syms fs)))"
  shows "proto_order (Prod fs) < term_order fs"
  using sum_remdups_less [OF assms(2)] sum_syms_leaves [OF assms(1)]
  by (simp add: proto_order_def)

section \<open>The prototype's two-slot classifiers against the core's\<close>

text \<open>
  C25: on a sum of products of leaves, the first slot of the prototype's
  \<open>group_by_infinite\<close>, which its comment calls the infinite part, is exactly the core's
  \<open>False\<close> (finite) group, and the second slot the core's \<open>True\<close> group.
\<close>

theorem pysw_group_by_infinite_swapped:
  assumes "product_terms T"
  shows "\<exists>d. group_by_infinite (Sum (map Prod T)) = ok (Inr d) \<and>
             get0 d False = fst (pysw_group_by_infinite (Sum (map Prod T))) \<and>
             get0 d True = snd (pysw_group_by_infinite (Sum (map Prod T)))"
proof -
  let ?e = "Sum (map Prod T)"
  have c: "classifiable ?e" "\<not> is_leaf ?e" using sum_products_classifiable [OF assms] by simp_all
  have lv: "\<forall>fs \<in> set T. list_all is_leaf fs" using assms by (simp add: product_terms_def list_all_iff)
  let ?P = "\<lambda>fs. list_ex is_boson (concat (map atom_factors fs))"
  have hb: "has_boson (Prod fs) = ?P fs" if "fs \<in> set T" for fs
  proof -
    have "list_all is_leaf fs" using lv that by simp
    then show ?thesis by (simp only: has_boson_Prod_leaves concat_leaf_factors)
  qed
  let ?G = "group_into (map (\<lambda>fs. (?P fs, term_of fs)) T)"
  have f: "fst (pysw_group_by_infinite ?e) = map Prod (filter (\<lambda>fs. ?P fs = False) T)"
    using hb by (simp add: pysw_group_by_infinite_def add_terms_Prods filter_map comp_def cong: filter_cong)
  have s: "snd (pysw_group_by_infinite ?e) = map Prod (filter (\<lambda>fs. ?P fs = True) T)"
    using hb by (simp add: pysw_group_by_infinite_def add_terms_Prods filter_map comp_def cong: filter_cong)
  have g: "group_by_infinite ?e = ok (Inr ?G)"
    using group_by_infinite_eq [OF c] unfolding expand_sum_products [OF assms] .
  show ?thesis
  proof (intro exI conjI)
    show "group_by_infinite ?e = ok (Inr ?G)" by (rule g)
    show "get0 ?G False = fst (pysw_group_by_infinite ?e)" unfolding f by (rule get0_group_Prods [OF assms])
    show "get0 ?G True = snd (pysw_group_by_infinite ?e)" unfolding s by (rule get0_group_Prods [OF assms])
  qed
qed

section \<open>The prototype's diagonal classifier\<close>

lemma diag_step_no_bosons: "diag_step [] r t = ok (fst r, snd r @ [t])"
  by (simp add: diag_step_def find_Matrix_def)

lemma diag_step_bosons: "bl \<noteq> [] \<Longrightarrow> diag_step bl r t = throw NameError"
  by (cases bl) (simp_all add: diag_step_def check_balanced_def Dagger_def)

lemma foldM_diag_step_no_bosons: "foldM (diag_step []) r ts = ok (fst r, snd r @ ts)"
  by (induction ts arbitrary: r) (simp_all add: diag_step_no_bosons)

lemma add_terms_bosons: "boson_modes e \<noteq> [] \<Longrightarrow> add_terms e \<noteq> []"
  by (induction e rule: add_terms.induct) auto

lemma pysw_group_by_diagonal_eq:
  "pysw_group_by_diagonal e = (if boson_modes e \<noteq> [] then throw NameError else ok ([], add_terms e))"
proof (cases "boson_modes e = []")
  case True
  then show ?thesis by (simp add: pysw_group_by_diagonal_def foldM_diag_step_no_bosons)
next
  case False
  then obtain t ts where "add_terms e = t # ts" by (cases "add_terms e") (auto dest: add_terms_bosons)
  with False show ?thesis by (simp add: pysw_group_by_diagonal_def diag_step_bosons)
qed

text \<open>
  C26: the prototype's \<open>group_by_diagonal\<close> raises \<open>NameError\<close> on every expression with
  a boson (the first term's balance check evaluates the undefined \<open>Dagger\<close>, whatever the
  term), and on an expression without one files every term in slot 1, which its comment
  calls the non-diagonal part: the matrix check searches for a node no expression has, so
  a term with an off-diagonal operator is filed with the diagonal ones.
\<close>

theorem pysw_group_by_diagonal_NameError:
  "pysw_group_by_diagonal e = (if boson_modes e \<noteq> [] then throw NameError else ok ([], add_terms e))"
  by (rule pysw_group_by_diagonal_eq)

section \<open>The prototype's solver\<close>

lemma map_of_int_keys: "map_of (map (\<lambda>(k, ts). (int k, ts)) xs) (int n) = map_of xs n"
  by (induction xs) auto

lemma solver_iteration_TypeError: "solver_iteration Hord nd st k = throw TypeError"
  by (cases "H_below_k st"; cases "map_of Hord k")
     (simp_all add: solver_iteration_def py_add_def py_iter_def)

text \<open>
  C27: the prototype's \<open>solver\<close> never computes a transformation. On a Hamiltonian with a
  boson it raises \<open>NameError\<close> at line 50, for every order. On one without, it returns the
  order-0 part (\<open>None\<close> when there is none) for \<open>order \<le> 0\<close>, and for every order of at
  least 1 raises \<open>TypeError\<close> in its first iteration: line 59 adds \<open>None\<close> when the
  Hamiltonian lacks order 0 or 1, and otherwise line 60 iterates over a sympy expression.
  The spec's Scenario D (a run with order 1) cannot complete.
\<close>

theorem pysw_solver_result:
  "pysw_solver H order =
     (if boson_modes H \<noteq> [] then throw NameError
      else if order \<le> 0 then ok (map_option sum_expr (map_of (pysw_group_by_order H) 0))
      else throw TypeError)"
proof (cases "boson_modes H = []")
  case False
  then show ?thesis by (simp add: pysw_solver_def Let_def pysw_group_by_diagonal_eq)
next
  case True
  show ?thesis
  proof (cases "order \<le> 0")
    case o: True
    then show ?thesis using True map_of_int_keys [of "pysw_group_by_order H" 0]
      by (simp add: pysw_solver_def Let_def pysw_group_by_diagonal_eq)
  next
    case False
    then have o: "[1..order] = 1 # [2..order]" by (simp add: upto.simps)
    show ?thesis
      using False True
      by (simp only: pysw_solver_def Let_def pysw_group_by_diagonal_eq o foldM.simps
            solver_iteration_TypeError rbind_throw if_False) simp
  qed
qed

section \<open>Witnesses\<close>

text \<open>Scenario B, \<open>s1*opA + s2*opA*opA\<close>, on which both implementations agree.\<close>

theorem pysw_group_by_order_agrees_witness:
  "group_by_order (Sum [Prod [Sym ''s1'' 1, FinOp ''opA'' ''X'' 2 [[0, 1], [1, 0]]],
                        Prod [Sym ''s2'' 2, FinOp ''opA'' ''X'' 2 [[0, 1], [1, 0]],
                              FinOp ''opA'' ''X'' 2 [[0, 1], [1, 0]]]]) =
   ok (Inr (pysw_group_by_order (Sum [Prod [Sym ''s1'' 1, FinOp ''opA'' ''X'' 2 [[0, 1], [1, 0]]],
                                      Prod [Sym ''s2'' 2, FinOp ''opA'' ''X'' 2 [[0, 1], [1, 0]],
                                            FinOp ''opA'' ''X'' 2 [[0, 1], [1, 0]]]])))"
proof -
  let ?T = "[[Sym ''s1'' 1, FinOp ''opA'' ''X'' 2 [[0, 1], [1, 0]]],
             [Sym ''s2'' 2, FinOp ''opA'' ''X'' 2 [[0, 1], [1, 0]], FinOp ''opA'' ''X'' 2 [[0, 1], [1, 0]]]]"
  have "product_terms ?T" "list_all (\<lambda>fs. distinct (concat (map syms fs))) ?T"
    by (simp_all add: product_terms_def)
  from pysw_group_by_order_agrees [OF this] show ?thesis by simp
qed

text \<open>\<open>g*g*opA\<close>: order 2 in the core, 1 in the prototype.\<close>

theorem pysw_order_repeated_symbol_witness:
  "proto_order (Prod [Sym ''g'' 1, Sym ''g'' 1, FinOp ''opA'' ''X'' 2 [[0, 1], [1, 0]]]) <
   term_order [Sym ''g'' 1, Sym ''g'' 1, FinOp ''opA'' ''X'' 2 [[0, 1], [1, 0]]] \<and>
   term_order [Sym ''g'' 1, Sym ''g'' 1, FinOp ''opA'' ''X'' 2 [[0, 1], [1, 0]]] = 2"
proof -
  have "list_all is_leaf [Sym ''g'' 1, Sym ''g'' 1, FinOp ''opA'' ''X'' 2 [[0, 1], [1, 0]]]"
    "\<not> distinct (filter (\<lambda>s. 0 < order_of s)
        (concat (map syms [Sym ''g'' 1, Sym ''g'' 1, FinOp ''opA'' ''X'' 2 [[0, 1], [1, 0]]])))"
    by simp_all
  from pysw_order_repeated_symbol [OF this] show ?thesis by (simp add: term_order_def)
qed

text \<open>The Rabi-type \<open>g*a^+*sx + w*sz\<close>: the prototype's first slot holds the finite term.\<close>

theorem pysw_group_by_infinite_swapped_witness:
  "\<exists>d. group_by_infinite (Sum [Prod [Sym ''g'' 1, Boson ''a'' ''a'' Creation, FinOp ''sx'' ''spin'' 2 [[0, 1], [1, 0]]],
                               Prod [Sym ''w'' 0, FinOp ''sz'' ''spin'' 2 [[1, 0], [0, -1]]]]) = ok (Inr d) \<and>
       get0 d False = fst (pysw_group_by_infinite
                             (Sum [Prod [Sym ''g'' 1, Boson ''a'' ''a'' Creation, FinOp ''sx'' ''spin'' 2 [[0, 1], [1, 0]]],
                                   Prod [Sym ''w'' 0, FinOp ''sz'' ''spin'' 2 [[1, 0], [0, -1]]]])) \<and>
       get0 d False = [Prod [Sym ''w'' 0, FinOp ''sz'' ''spin'' 2 [[1, 0], [0, -1]]]]"
proof -
  let ?T = "[[Sym ''g'' 1, Boson ''a'' ''a'' Creation, FinOp ''sx'' ''spin'' 2 [[0, 1], [1, 0]]],
             [Sym ''w'' 0, FinOp ''sz'' ''spin'' 2 [[1, 0], [0, -1]]]]"
  have "product_terms ?T" by (simp add: product_terms_def)
  from pysw_group_by_infinite_swapped [OF this] obtain d where
    d: "group_by_infinite (Sum (map Prod ?T)) = ok (Inr d)"
       "get0 d False = fst (pysw_group_by_infinite (Sum (map Prod ?T)))"
    by blast
  have "fst (pysw_group_by_infinite (Sum (map Prod ?T))) =
          [Prod [Sym ''w'' 0, FinOp ''sz'' ''spin'' 2 [[1, 0], [0, -1]]]]"
    by (simp add: pysw_group_by_infinite_def)
  with d show ?thesis by auto
qed

text \<open>
  \<open>g*a^+*a*sx\<close> (Scenario C) raises; \<open>w*sz + g*sx\<close> has both terms in slot 1, the
  off-diagonal \<open>g*sx\<close> with the diagonal \<open>w*sz\<close>.
\<close>

theorem pysw_group_by_diagonal_NameError_witness:
  "pysw_group_by_diagonal (Sum [Prod [Sym ''g'' 1, Boson ''a'' ''a'' Creation, Boson ''a'' ''a'' Annihilation,
                                     FinOp ''sx'' ''spin'' 2 []]]) = throw NameError \<and>
   pysw_group_by_diagonal (Sum [Prod [Sym ''w'' 0, FinOp ''sz'' ''spin'' 2 []],
                                Prod [Sym ''g'' 1, FinOp ''sx'' ''spin'' 2 []]]) =
     ok ([], [Prod [Sym ''w'' 0, FinOp ''sz'' ''spin'' 2 []], Prod [Sym ''g'' 1, FinOp ''sx'' ''spin'' 2 []]])"
  using pysw_group_by_diagonal_NameError [of "Sum [Prod [Sym ''g'' 1, Boson ''a'' ''a'' Creation,
                                               Boson ''a'' ''a'' Annihilation, FinOp ''sx'' ''spin'' 2 []]]"]
    pysw_group_by_diagonal_NameError [of "Sum [Prod [Sym ''w'' 0, FinOp ''sz'' ''spin'' 2 []],
                                               Prod [Sym ''g'' 1, FinOp ''sx'' ''spin'' 2 []]]"]
  by simp

theorem pysw_solver_result_witness:
  "pysw_solver (Sum [Sym ''w'' 0, Prod [Sym ''g'' 1, FinOp ''sx'' ''spin'' 2 [[0, 1], [1, 0]]]]) 1
     = throw TypeError \<and>
   pysw_solver (Sum [Sym ''w'' 0, Prod [Sym ''g'' 1, FinOp ''sx'' ''spin'' 2 [[0, 1], [1, 0]]]]) 0
     = ok (Some (Sym ''w'' 0)) \<and>
   pysw_solver (Sum [Sym ''w'' 0, Prod [Sym ''g'' 1, Boson ''a'' ''a'' Creation]]) 0 = throw NameError"
  using pysw_solver_result [of "Sum [Sym ''w'' 0, Prod [Sym ''g'' 1, FinOp ''sx'' ''spin'' 2 [[0, 1], [1, 0]]]]" 1]
    pysw_solver_result [of "Sum [Sym ''w'' 0, Prod [Sym ''g'' 1, FinOp ''sx'' ''spin'' 2 [[0, 1], [1, 0]]]]" 0]
    pysw_solver_result [of "Sum [Sym ''w'' 0, Prod [Sym ''g'' 1, Boson ''a'' ''a'' Creation]]" 0]
  by (simp add: pysw_group_by_order_def group_into_def dict_add_def proto_order_def)

end
