(* ===== verification/ExpandOperators.thy ===== *)
theory ExpandOperators
  imports Prototype
begin

text \<open>
  \<open>expand_operators\<close> of \<open>src/pysw/utils.py\<close> (lines 59--76): the prototype's domain
  expansion. It collects the subspaces of the operators of the expression into a Python
  \<open>set\<close> and lists them in the set's iteration order, which depends on the hashes of the
  subspace objects (string hashes change between interpreter runs); the model takes this
  list, \<open>spaces\<close>, as a parameter. Each substitution \<open>(op, mat)\<close> is checked by three
  assertions and its matrix replaced by the tensor product, over \<open>spaces\<close>, of \<open>mat\<close> at the
  operator's subspace and identities elsewhere. The final \<open>expr.subs(subs)\<close> is sympy's;
  the model returns the expression with the substitution list it applies.
\<close>

text \<open>The subspaces of \<open>expr.atoms(RDOperator)\<close>, as \<open>SubSpace(name, dim)\<close> pairs.\<close>

fun op_spaces :: "expr \<Rightarrow> (string \<times> nat) list" where
  "op_spaces (FinOp _ s d _) = [(s, d)]"
| "op_spaces (Sum es) = concat (map op_spaces es)"
| "op_spaces (Prod es) = concat (map op_spaces es)"
| "op_spaces (Power b _) = op_spaces b"
| "op_spaces (Comm a b) = op_spaces a @ op_spaces b"
| "op_spaces _ = []"

text \<open>\<open>list(set(xs))\<close>: the list holds every element once, in an order the code does not fix.\<close>

definition set_order :: "'a list \<Rightarrow> 'a list \<Rightarrow> bool" where
  "set_order xs ys \<longleftrightarrow> distinct ys \<and> set ys = set xs"

text \<open>
  sympy's \<open>TensorProduct(*ms)\<close> of explicit matrices is their Kronecker product; with no
  argument it reads \<open>args[0]\<close> and raises \<open>IndexError\<close>.
\<close>

definition tensor_product :: "mat list \<Rightarrow> mat res" where
  "tensor_product ms = (case ms of [] \<Rightarrow> throw IndexError | m # ms' \<Rightarrow> ok (foldl kron m ms'))"

text \<open>
  One iteration of the loop (lines 66--74): \<open>op\<close> must be an \<open>RDOperator\<close>, \<open>mat\<close> square
  (\<open>mat.shape[0] == mat.shape[1]\<close>) of the dimension of the operator's subspace.
\<close>

definition expand_sub :: "(string \<times> nat) list \<Rightarrow> expr \<times> mat \<Rightarrow> (expr \<times> mat) res" where
  "expand_sub spaces sub =
     (case sub of (op, mat) \<Rightarrow>
        (case op of
           FinOp _ s d _ \<Rightarrow>
             if length mat \<noteq> ncols mat then throw AssertionError
             else if d \<noteq> length mat then throw AssertionError
             else rbind (tensor_product (map (\<lambda>space. if (s, d) = space then mat else eye (snd space)) spaces))
                    (\<lambda>K. ok (op, K))
         | _ \<Rightarrow> throw AssertionError))"

definition expand_operators ::
  "(string \<times> nat) list \<Rightarrow> expr \<Rightarrow> (expr \<times> mat) list \<Rightarrow> (expr \<times> (expr \<times> mat) list) res" where
  "expand_operators spaces e subs = rbind (mapM (expand_sub spaces) subs) (\<lambda>subs'. ok (e, subs'))"

section \<open>Lemmas\<close>

lemma tensor_product_kron_list: "ms \<noteq> [] \<Longrightarrow> tensor_product ms = kron_list ms"
  by (cases ms) (simp_all add: tensor_product_def kron_list_def)

lemma rect_is_sq:
  "\<forall>r \<in> set mat. length r = ncols mat \<Longrightarrow> is_sq d mat \<longleftrightarrow> length mat = ncols mat \<and> d = length mat"
  by (cases mat) (auto simp: is_sq_def ncols_def)

lemma spaces_padded:
  "map (\<lambda>space. if (s, D s) = space then mat else eye (snd space)) (map (\<lambda>s'. (s', D s')) names) =
   padded names D s mat"
  by (auto simp: padded_def)

lemma expand_sub_FinOp:
  assumes "\<forall>r \<in> set mat. length r = ncols mat" "names \<noteq> []"
  shows "expand_sub (map (\<lambda>s'. (s', D s')) names) (FinOp n s (D s) M, mat) =
           (if is_sq (D s) mat then rbind (kron_list (padded names D s mat)) (\<lambda>K. ok (FinOp n s (D s) M, K))
            else throw AssertionError)"
proof -
  have ne: "padded names D s mat \<noteq> []" using assms(2) by (simp add: padded_def)
  show ?thesis
  proof (cases "is_sq (D s) mat")
    case True
    then have c: "(length mat \<noteq> ncols mat) = False" "(D s \<noteq> length mat) = False"
      using rect_is_sq [OF assms(1), of "D s"] by simp_all
    show ?thesis
      unfolding expand_sub_def
      by (simp only: prod.case expr.simps c if_False if_True True spaces_padded tensor_product_kron_list [OF ne])
  next
    case False
    then show ?thesis
      using rect_is_sq [OF assms(1), of "D s"] by (auto simp: expand_sub_def)
  qed
qed

section \<open>Properties\<close>

text \<open>
  C35: the prototype's expansion of one operator agrees with the core's
  \<open>domain_expansion\<close> when the set of subspaces happens to be listed in the order of the
  core's subspace list: with a square matrix of its subspace's dimension it becomes the
  same Kronecker product, and otherwise an assertion fails.
\<close>

theorem expand_sub_agrees:
  assumes "names \<noteq> []" and "\<forall>s' \<in> set names. map_of ids s' = Some (eye (D s'))"
    and "\<forall>r \<in> set mat. length r = ncols mat"
  shows "(is_sq (D s) mat \<longrightarrow>
            (\<exists>K. expand_sub (map (\<lambda>s'. (s', D s')) names) (FinOp n s (D s) M, mat) = ok (FinOp n s (D s) M, K) \<and>
                 domain_expansion (FinOp n s (D s) mat) names (Some ids) = ok [([], Some K)])) \<and>
         (\<not> is_sq (D s) mat \<longrightarrow>
            expand_sub (map (\<lambda>s'. (s', D s')) names) (FinOp n s (D s) M, mat) = throw AssertionError)"
proof (intro conjI impI)
  assume sq: "is_sq (D s) mat"
  from expand_operator [of names D s mat ids n "D s", OF assms(1) sq] assms(2) obtain K where
    "domain_expansion (FinOp n s (D s) mat) names (Some ids) = ok [([], Some K)]"
    "kron_list (padded names D s mat) = ok K"
    by blast
  then show "\<exists>K. expand_sub (map (\<lambda>s'. (s', D s')) names) (FinOp n s (D s) M, mat) = ok (FinOp n s (D s) M, K) \<and>
              domain_expansion (FinOp n s (D s) mat) names (Some ids) = ok [([], Some K)]"
    using sq by (simp add: expand_sub_FinOp [OF assms(3,1)])
next
  assume "\<not> is_sq (D s) mat"
  then show "expand_sub (map (\<lambda>s'. (s', D s')) names) (FinOp n s (D s) M, mat) = throw AssertionError"
    by (simp add: expand_sub_FinOp [OF assms(3,1)])
qed

section \<open>Witnesses\<close>

theorem expand_sub_agrees_witness:
  "expand_sub [(''X'', 2), (''Y'', 2)] (FinOp ''opA'' ''X'' 2 [], [[0, 1], [1, 0]]) =
     ok (FinOp ''opA'' ''X'' 2 [], kron [[0, 1], [1, 0]] (eye 2)) \<and>
   domain_expansion (FinOp ''opA'' ''X'' 2 [[0, 1], [1, 0]]) [''X'', ''Y''] (Some [(''X'', eye 2), (''Y'', eye 2)]) =
     ok [([], Some (kron [[0, 1], [1, 0]] (eye 2)))] \<and>
   expand_sub [(''X'', 2), (''Y'', 2)] (FinOp ''opA'' ''X'' 2 [], [[0, 1, 0]]) = throw AssertionError"
proof -
  have sq: "is_sq 2 [[0, 1], [1, 0]]" and nsq: "\<not> is_sq 2 [[0, 1, 0]]" by (simp_all add: is_sq_def)
  have r: "\<forall>r \<in> set [[0, 1], [1, 0 :: int]]. length r = ncols [[0, 1], [1, 0]]"
    and r': "\<forall>r \<in> set [[0, 1, 0 :: int]]. length r = ncols [[0, 1, 0]]" by (simp_all add: ncols_def)
  have ids: "\<forall>s' \<in> set [''X'', ''Y'']. map_of [(''X'', eye 2), (''Y'', eye 2)] s' = Some (eye ((\<lambda>_. 2) s'))"
    by simp
  obtain K where K: "expand_sub [(''X'', 2), (''Y'', 2)] (FinOp ''opA'' ''X'' 2 [], [[0, 1], [1, 0]]) =
                       ok (FinOp ''opA'' ''X'' 2 [], K)"
      "domain_expansion (FinOp ''opA'' ''X'' 2 [[0, 1], [1, 0]]) [''X'', ''Y''] (Some [(''X'', eye 2), (''Y'', eye 2)]) =
         ok [([], Some K)]"
    using expand_sub_agrees [where names = "[''X'', ''Y'']" and D = "\<lambda>_. 2" and s = "''X''" and n = "''opA''"
        and M = "[]" and mat = "[[0, 1], [1, 0]]", OF _ ids r] sq by auto
  moreover have "K = kron [[0, 1], [1, 0]] (eye 2)"
    using K(1) by (simp add: expand_sub_def tensor_product_def ncols_def)
  moreover have "expand_sub [(''X'', 2), (''Y'', 2)] (FinOp ''opA'' ''X'' 2 [], [[0, 1, 0]]) = throw AssertionError"
    using expand_sub_agrees [where names = "[''X'', ''Y'']" and D = "\<lambda>_. 2" and s = "''X''" and n = "''opA''"
        and M = "[]" and mat = "[[0, 1, 0]]", OF _ ids r'] nsq by auto
  ultimately show ?thesis by simp
qed

end
