(* ===== verification/Spec2Isabelle.thy ===== *)
theory Spec2Isabelle
  imports Matrix DiagonalExpansion ExpandOperators
begin

text \<open>
  \<^bold>\<open>A verification development of PySW\<close> (the Schrieffer-Wolff block-diagonalisation
  toolkit of the repository Niceadam/PySW).

  \<^bold>\<open>The program.\<close> PySW splits a Hamiltonian, a sympy expression built from perturbative
  symbols (\<open>RDsymbol\<close>, with an order), finite-dimensional operators with explicit
  matrices (\<open>RDOperator\<close>) and bosonic ladder operators (\<open>RDBoson\<close>), into groups, and
  promotes subspace-local matrices to the full tensor-product space. Its core is
  \<open>src/Modules/sympy/utils.py\<close>: the decomposer \<open>get_terms_and_factors\<close>, which every
  other function calls, the classifiers \<open>group_by_order\<close>, \<open>group_by_infinite\<close>,
  \<open>count_bosons\<close> and \<open>group_by_diagonal\<close>, the domain expansion
  \<open>get_finite_identities\<close> / \<open>domain_expansion\<close>, and the helpers for the generator
  (\<open>group_by_infinite_operators\<close>, \<open>S\<close>, \<open>nested_commutator\<close>). An older prototype,
  \<open>src/pysw/\<close>, has its own classes (\<open>classes.py\<close>), sympy-based classifiers
  (\<open>utils.py\<close>) and the order-by-order solver (\<open>solver.py\<close>); \<open>src/test.py\<close> is a script.

  \<^bold>\<open>The library.\<close>
  \<^item> \<open>Prelude\<close>: Python exceptions as values (\<open>pyerr\<close>), the result type
    \<open>'a res = (pyerr + 'a) option\<close> in which \<open>None\<close> is a recursion that never returns
    (CPython's \<open>RecursionError\<close>), its bind \<open>rbind\<close> and the traversals \<open>mapM\<close> and
    \<open>foldM\<close> with their monotonicity rules for \<^theory_text>\<open>partial_function (option)\<close>;
    dictionaries as association lists in Python's insertion order (\<open>dict_add\<close>,
    \<open>group_into\<close>, \<open>get0\<close> for \<open>dict.get(k, [])\<close>); integer matrices with identity,
    Kronecker product (\<open>kron_list\<close> is sympy's \<open>kronecker_product(*ms)\<close>) and product,
    and their shape lemmas (collection \<open>shape_simps\<close>).
  \<^item> \<open>Expr\<close>: the expression datatype (one constructor per class the multimethods
    dispatch on) and the external engine's expansion \<open>expand_terms\<close>, which is not code
    of the repository and is modelled from spec section 6.
  \<^item> \<open>Decompose\<close>: \<open>get_terms_and_factors\<close> (utils.py 18--46), all three overloads as
    one \<^theory_text>\<open>partial_function (option)\<close>. C1: it returns \<open>decompose e\<close> exactly on the
    expressions without an unevaluated commutator factor; C2: on the others it never
    returns (the generic overload calls itself on the commutator).
  \<^item> \<open>Classify\<close>: \<open>group_by_order\<close> and \<open>group_by_infinite\<close> (48--87). C3: the order
    groups are the terms whose factor orders sum to the key; C4: the infinite split is a
    partition by the presence of a boson factor. These hold on \<open>classifiable\<close>
    expressions, whose factors are leaves.
  \<^item> \<open>Diagonal\<close>: \<open>count_bosons\<close> and \<open>group_by_diagonal\<close> (89--145). C5: the counts are
    the multiset counts of the boson factors per mode and kind; C6: the code's matrix test
    \<open>sum|M - diag(M.diagonal())| = 0\<close> is equivalent to zero off-diagonal entries on square
    matrices; C7--C9: the True group is exactly the terms with balanced bosons and
    diagonal finite factors, an unbalanced term is never in it; C10: a lone-leaf term
    makes the classifier raise \<open>AttributeError\<close>.
  \<^item> \<open>Domain\<close>: \<open>get_finite_identities\<close> and \<open>domain_expansion\<close> (148--221). A value is a
    list of terms, each its symbolic factors and the product of its matrices; sympy's
    \<open>Mul\<close> of matrices keeps its \<open>ShapeError\<close>, and its \<open>Add\<close> (\<open>add_all\<close>) adds matrices of
    one shape and keeps scalar terms beside them (the matrix postprocessor builds
    \<open>Add(scalar, matrix)\<close> without raising). C11: an operator expands to the ordered
    Kronecker product of its matrix and the identities, square of the product of the
    dimensions; C12: with the default identities a lone operator raises \<open>KeyError\<close> (spec
    Scenario A fails); C13: a compound expression whose terms all carry a matrix expands
    to one full-size square matrix per term; C14: in general each term expands to a
    full-size matrix if it has an operator or a boson and stays a scalar otherwise, so
    \<open>g*opA + x\<close> is a sum of a matrix and a scalar, not the matrix the spec promises.
  \<^item> \<open>Generator\<close>: the helpers of utils.py 223--272. C15: \<open>nested_commutator\<close>
    returns the \<open>k\<close>-fold commutator for \<open>k \<ge> 0\<close> and never returns for \<open>k < 0\<close>;
    C17/C18: \<open>group_by_infinite_operators\<close> files each infinite term's finite product
    under the product of its bosons (finite terms under 1), and raises
    \<open>AttributeError\<close> on a leaf; C19/C20: \<open>get_finite_operators\<close> promotes operators on
    distinct subspaces correctly, but with a shared subspace declares a dimension smaller
    than its matrices; C21/C22: \<open>S\<close> builds a \<open>dim\<close> by \<open>dim\<close> matrix of pairwise distinct
    unknowns (the decimal names read back to their index).
  \<^item> \<open>Prototype\<close>: \<open>src/pysw\<close>. Its classifiers walk the unexpanded terms and search
    their trees; on sums of products of leaves they are compared with the core's: C23 the
    order grouping agrees where no term repeats a symbol, C24 it undercounts a repeated
    one; C25 the two slots of \<open>group_by_infinite\<close> are the core's groups in the opposite
    order to the code's comment. C26: its \<open>group_by_diagonal\<close> calls \<open>Dagger\<close>, which
    \<open>utils.py\<close> never imports, so it raises \<open>NameError\<close> on every expression with a boson,
    and its matrix check searches \<open>term.find(sp.Matrix)\<close>, which is always empty, so an
    expression without a boson has all its terms in slot 1. The solver is modelled with an
    \<open>int\<close> order and its loop body up to line 63, where an undefined name raises
    \<open>NameError\<close> (\<open>get_ansatz\<close> raises \<open>AttributeError\<close> on its first line); C27: it raises
    \<open>NameError\<close> at line 50 on a Hamiltonian with a boson, and otherwise returns the
    order-0 part for \<open>order \<le> 0\<close> and raises \<open>TypeError\<close> in its first iteration.
  \<^item> \<open>Matrix\<close>: \<open>get_matrix\<close> (275--295) and a type system for matrix expressions
    (\<open>ety\<close>: a scalar or a square matrix of a size; \<open>ty_of\<close> the executable checker).
    C28: a well-typed expression evaluates without error to terms of its type (type
    soundness, by induction on the size of the expression); C29: on a boson the function
    never returns (the generic overload calls itself on it); C30: a product of square
    operators of different sizes raises \<open>ShapeError\<close>.
  \<^item> \<open>Kron\<close>: the matrix algebra behind the commutation rules (entries of products and
    Kronecker products, the identity, the mixed-product law for \<open>kron_list\<close>).
  \<^item> \<open>Commutator\<close>: the classes of \<open>src/pysw/classes.py\<close> (\<open>SubSpace\<close> as a record,
    the constructors \<open>RDOperator\<close> and \<open>RDsymbol\<close> onto the leaves \<open>FinOp\<close> and \<open>Sym\<close>,
    \<open>RDOperator_subspace\<close>) and their commutator hooks
    (\<open>RDOperator_eval_commutator\<close>, lines 42--51; \<open>RDsymbol_eval_commutator\<close>,
    75--79) inside sympy's \<open>Commutator.doit\<close> (\<open>comm_doit\<close>: the hook of the left
    operand, else minus the hook of the right one, else \<open>A*B - B*A\<close>) with sympy's
    ladder rule, and \<open>expand_commutator\<close> (utils.py 259--264) as a \<open>while_option\<close> over
    the engine's rewrite, a parameter. C31: whenever \<open>doit\<close> gives 0 for two leaves, the
    domain expansions of \<open>x*y\<close> and \<open>y*x\<close> agree (refinement of the rule by the matrix
    semantics of \<open>Domain\<close>, through the mixed-product law); C32: a finite operator
    commutes with every operator but those of its own subspace; C33: the loop returns a
    fixpoint for every rewrite that decreases a measure (liveness); C34: it returns
    exactly the first fixpoint of the iteration and never returns when there is none.
  \<^item> \<open>ExpandOperators\<close>: the prototype's \<open>expand_operators\<close> (\<open>src/pysw/utils.py\<close>
    59--76), with the iteration order of its set of subspaces as a parameter (\<open>spaces\<close>)
    and its three assertions as \<open>AssertionError\<close>. C35: when that order is the core's
    subspace list, each operator's matrix is the core's \<open>domain_expansion\<close> of it, and a
    matrix that is not square of the subspace's dimension fails an assertion.
  \<^item> \<open>DiagonalExpansion\<close>: the diagonal classifier against the domain expansion.
    Diagonal square matrices (\<open>offdiag_zero\<close>) are closed under products and Kronecker
    products, and the identities are diagonal; a leaf with a diagonal matrix, a boson
    (whose matrix is the identity) and a scalar expand to diagonal values, and so does the
    product of a term's factors. C16: when \<open>group_by_diagonal\<close> files every term of an
    expression under \<open>True\<close>, \<open>domain_expansion\<close> gives one diagonal full-size matrix per
    term of that group (spec sections 4.3 and 8 agree).

  Every claim with hypotheses has a witness theorem that applies it at a concrete
  expression of the spec's scenarios or of \<open>src/test.py\<close>. No fuel is used: the
  recursions that may not end (the decomposer, the multimethods built on it, and
  \<open>nested_commutator\<close>) are \<^theory_text>\<open>partial_function (option)\<close>, and where the code returns
  this is proved as \<open>\<dots> = ok \<dots>\<close>; the loop of \<open>expand_commutator\<close> is a
  \<open>while_option\<close>, whose return is proved from a decreasing measure (C33).

  \<^bold>\<open>Not modelled.\<close> sympy itself (expression construction, simplification,
  \<open>solve\<close>) and numpy are external; the expansion the code calls is modelled from spec
  section 6 in \<open>Expr\<close>; the rewrite \<open>expand(commutator=True)\<close> that
  \<open>expand_commutator\<close> iterates is a parameter of its model; the \<open>print\<close> calls of
  \<open>get_matrix\<close> are output only; in \<open>src/pysw/utils.py\<close> the final \<open>expr.subs\<close> of
  \<open>expand_operators\<close> is sympy's and \<open>group_by_infinite_operaters\<close> is one call of a
  sympy method (\<open>expr.coeffs\<close>) whose result the expression model does not define; the
  solver's lines 64--80 and \<open>get_ansatz\<close>'s lines 13--40 follow unconditional raises and
  are never executed; \<open>src/test.py\<close> is a script: it builds a Hamiltonian with the
  coefficient \<open>sp.Rational(1, 2)\<close>, outside the integer model, then calls
  \<open>group_by_infinite_operaters\<close> (not modelled) and \<open>expand_operators\<close> (modelled in
  \<open>ExpandOperators\<close>); the printing methods
  of \<open>classes.py\<close> are output only, and sympy's construction of a \<open>Commutator\<close> (its
  canonical ordering of the operands) is not modelled. Numbers are integers
  (no floating-point or complex coefficients), and sympy's merging of equal factors into
  powers and collecting of like terms is not modelled (it changes no key the classifiers
  compute).
\<close>

end
